theory Spec2Isabelle
  imports Main "HOL-Library.Word"
begin

unbundle bit_operations_syntax

section \<open>The WebSocket gateway of wt-tracker (src/lib/uws-tracker.ts)\<close>

subsection \<open>Data\<close>

text \<open>
  A \<open>conn\<close> is the identity of one \<open>WebSocket\<close> object handed out by the transport, an
  \<open>addr\<close> the identity of one \<open>PeerContext\<close> object on the JavaScript heap. A frame is an
  \<open>ArrayBuffer\<close>, read through \<open>Uint8Array\<close>; a JavaScript string is a sequence of UTF-16
  code units.
\<close>

type_synonym conn = nat
type_synonym addr = nat
type_synonym byte = "8 word"
type_synonym code_unit = "16 word"
type_synonym jstring = "code_unit list"

text \<open>
  The values \<open>JSON.parse\<close> returns. A number is kept as the exact decimal
  \<open>m * 10 ^ e\<close> its literal denotes (JavaScript then rounds it to a double, which no
  property below looks at); an object keeps its members in source order.
\<close>

datatype json =
    JNull
  | JBool bool
  | JNumber int int
  | JString jstring
  | JArray "json list"
  | JObject "(jstring \<times> json) list"

text \<open>
  What a JavaScript \<open>throw\<close> carries, as far as the gateway tells values apart:
  \<open>e instanceof TrackerError\<close> or not.
\<close>

datatype thrown = TrackerError string | TypeError string | OtherError string

fun instanceof_TrackerError :: "thrown \<Rightarrow> bool" where
  "instanceof_TrackerError (TrackerError _) = True"
| "instanceof_TrackerError _ = False"

subsection \<open>The platform's \<open>StringDecoder\<close>\<close>

text \<open>
  \<open>new StringDecoder().end(bytes)\<close> decodes UTF-8 and never throws: every malformed or
  truncated sequence comes out as U+FFFD. \<open>utf8_decode\<close> yields the code points, with
  \<open>None\<close> where a sequence was malformed; \<open>utf8_valid\<close> holds when there is none.
\<close>

datatype utf8_state = Start | Cont nat nat byte byte

definition utf8_lead :: "byte \<Rightarrow> nat option + utf8_state" where
  "utf8_lead b =
     (if b \<le> 0x7F then Inl (Some (unat b))
      else if 0xC2 \<le> b \<and> b \<le> 0xDF then Inr (Cont (unat (b AND 0x1F)) 1 0x80 0xBF)
      else if 0xE0 \<le> b \<and> b \<le> 0xEF then
        Inr (Cont (unat (b AND 0x0F)) 2 (if b = 0xE0 then 0xA0 else 0x80)
                  (if b = 0xED then 0x9F else 0xBF))
      else if 0xF0 \<le> b \<and> b \<le> 0xF4 then
        Inr (Cont (unat (b AND 0x07)) 3 (if b = 0xF0 then 0x90 else 0x80)
                  (if b = 0xF4 then 0x8F else 0xBF))
      else Inl None)"

fun utf8_decode :: "utf8_state \<Rightarrow> byte list \<Rightarrow> nat option list" where
  "utf8_decode Start [] = []"
| "utf8_decode (Cont cp n lo hi) [] = [None]"
| "utf8_decode Start (b # bs) =
     (case utf8_lead b of
        Inl out \<Rightarrow> out # utf8_decode Start bs
      | Inr st \<Rightarrow> utf8_decode st bs)"
| "utf8_decode (Cont cp n lo hi) (b # bs) =
     (if lo \<le> b \<and> b \<le> hi
      then (let cp1 = cp * 64 + unat (b AND 0x3F)
            in if n \<le> 1 then Some cp1 # utf8_decode Start bs
               else utf8_decode (Cont cp1 (n - 1) 0x80 0xBF) bs)
      else None # (case utf8_lead b of
                     Inl out \<Rightarrow> out # utf8_decode Start bs
                   | Inr st \<Rightarrow> utf8_decode st bs))"

definition utf16_units :: "nat \<Rightarrow> jstring" where
  "utf16_units cp =
     (if cp < 0x10000 then [of_nat cp]
      else [of_nat (0xD800 + (cp - 0x10000) div 0x400), of_nat (0xDC00 + (cp - 0x10000) mod 0x400)])"


definition StringDecoder_end :: "byte list \<Rightarrow> jstring" where
  "StringDecoder_end bs =
     concat (map (\<lambda>x. case x of None \<Rightarrow> [0xFFFD] | Some cp \<Rightarrow> utf16_units cp) (utf8_decode Start bs))"


subsection \<open>The platform's \<open>JSON.parse\<close>\<close>

text \<open>
  The JSON grammar of ECMA-262, as a lexer and a recursive-descent parser. Each function
  returns, beside its result, how many items of its input it consumed. A repeated key
  keeps its first position and its last value.
\<close>

datatype token =
    TLBrace | TRBrace | TLBracket | TRBracket | TColon | TComma
  | TString jstring | TNumber int int | TTrue | TFalse | TNull

definition is_ws :: "code_unit \<Rightarrow> bool" where
  "is_ws c = (c = 0x09 \<or> c = 0x0A \<or> c = 0x0D \<or> c = 0x20)"

definition is_digit :: "code_unit \<Rightarrow> bool" where
  "is_digit c = (0x30 \<le> c \<and> c \<le> 0x39)"

definition hex_val :: "code_unit \<Rightarrow> nat option" where
  "hex_val c =
     (if 0x30 \<le> c \<and> c \<le> 0x39 then Some (unat c - 0x30)
      else if 0x41 \<le> c \<and> c \<le> 0x46 then Some (unat c - 0x41 + 10)
      else if 0x61 \<le> c \<and> c \<le> 0x66 then Some (unat c - 0x61 + 10)
      else None)"

definition hex4 :: "jstring \<Rightarrow> code_unit option" where
  "hex4 xs =
     (case map hex_val xs of
        [Some a, Some b, Some c, Some d] \<Rightarrow> Some (of_nat (((a * 16 + b) * 16 + c) * 16 + d))
      | _ \<Rightarrow> None)"

definition escape_char :: "code_unit \<Rightarrow> code_unit option" where
  "escape_char e =
     (if e = 0x22 then Some 0x22
      else if e = 0x5C then Some 0x5C
      else if e = 0x2F then Some 0x2F
      else if e = 0x62 then Some 0x08
      else if e = 0x66 then Some 0x0C
      else if e = 0x6E then Some 0x0A
      else if e = 0x72 then Some 0x0D
      else if e = 0x74 then Some 0x09
      else None)"

fun lex_string :: "jstring \<Rightarrow> (jstring \<times> nat) option" where
  "lex_string [] = None"
| "lex_string (c # cs) =
     (if c = 0x22 then Some ([], 1)
      else if c = 0x5C then
        (case cs of
           [] \<Rightarrow> None
         | e # cs' \<Rightarrow>
             if e = 0x75 then
               (case hex4 (take 4 cs') of
                  None \<Rightarrow> None
                | Some u \<Rightarrow>
                    (case lex_string (drop 4 cs') of
                       None \<Rightarrow> None
                     | Some (s, n) \<Rightarrow> Some (u # s, n + 6)))
             else
               (case escape_char e of
                  None \<Rightarrow> None
                | Some u \<Rightarrow>
                    (case lex_string cs' of
                       None \<Rightarrow> None
                     | Some (s, n) \<Rightarrow> Some (u # s, n + 2))))
      else if c < 0x20 then None
      else (case lex_string cs of None \<Rightarrow> None | Some (s, n) \<Rightarrow> Some (c # s, n + 1)))"

definition digits_val :: "jstring \<Rightarrow> int" where
  "digits_val ds = foldl (\<lambda>a d. a * 10 + (uint d - 0x30)) 0 ds"

definition lex_number :: "jstring \<Rightarrow> (int \<times> int \<times> nat) option" where
  "lex_number s =
     (let neg = (s \<noteq> [] \<and> hd s = 0x2D);
          r1 = (if neg then tl s else s);
          run1 = takeWhile is_digit r1;
          ip = (if run1 \<noteq> [] \<and> hd run1 = 0x30 then [0x30] else run1);
          r2 = drop (length ip) r1;
          has_frac = (r2 \<noteq> [] \<and> hd r2 = 0x2E);
          fp = (if has_frac then takeWhile is_digit (tl r2) else []);
          r3 = (if has_frac then drop (length fp) (tl r2) else r2);
          has_exp = (r3 \<noteq> [] \<and> (hd r3 = 0x65 \<or> hd r3 = 0x45));
          r4 = (if has_exp then tl r3 else r3);
          eneg = (has_exp \<and> r4 \<noteq> [] \<and> hd r4 = 0x2D);
          esign = (has_exp \<and> r4 \<noteq> [] \<and> (hd r4 = 0x2D \<or> hd r4 = 0x2B));
          r5 = (if esign then tl r4 else r4);
          ep = (if has_exp then takeWhile is_digit r5 else []);
          r6 = drop (length ep) r5;
          m = digits_val (ip @ fp);
          x = digits_val ep
      in if ip = [] \<or> (has_frac \<and> fp = []) \<or> (has_exp \<and> ep = []) then None
         else Some (if neg then - m else m,
                    (if eneg then - x else x) - int (length fp),
                    length s - length r6))"

definition lit_true :: jstring where "lit_true = [0x74, 0x72, 0x75, 0x65]"
definition lit_false :: jstring where "lit_false = [0x66, 0x61, 0x6C, 0x73, 0x65]"
definition lit_null :: jstring where "lit_null = [0x6E, 0x75, 0x6C, 0x6C]"

fun lex :: "jstring \<Rightarrow> token list option" where
  "lex [] = Some []"
| "lex (c # cs) =
     (if is_ws c then lex cs
      else if c = 0x7B then map_option ((#) TLBrace) (lex cs)
      else if c = 0x7D then map_option ((#) TRBrace) (lex cs)
      else if c = 0x5B then map_option ((#) TLBracket) (lex cs)
      else if c = 0x5D then map_option ((#) TRBracket) (lex cs)
      else if c = 0x3A then map_option ((#) TColon) (lex cs)
      else if c = 0x2C then map_option ((#) TComma) (lex cs)
      else if c = 0x22 then
        (case lex_string cs of
           None \<Rightarrow> None
         | Some (s, n) \<Rightarrow> map_option ((#) (TString s)) (lex (drop n cs)))
      else if c = 0x2D \<or> is_digit c then
        (case lex_number (c # cs) of
           None \<Rightarrow> None
         | Some (m, e, n) \<Rightarrow> map_option ((#) (TNumber m e)) (lex (drop (n - 1) cs)))
      else if take 4 (c # cs) = lit_true then map_option ((#) TTrue) (lex (drop 3 cs))
      else if take 5 (c # cs) = lit_false then map_option ((#) TFalse) (lex (drop 4 cs))
      else if take 4 (c # cs) = lit_null then map_option ((#) TNull) (lex (drop 3 cs))
      else None)"

definition obj_add :: "jstring \<Rightarrow> json \<Rightarrow> (jstring \<times> json) list \<Rightarrow> (jstring \<times> json) list" where
  "obj_add k v ms =
     (k, case map_of ms k of None \<Rightarrow> v | Some v' \<Rightarrow> v') # filter (\<lambda>kv. fst kv \<noteq> k) ms"

function (sequential)
  parse_value :: "token list \<Rightarrow> (json \<times> nat) option" and
  parse_elements :: "token list \<Rightarrow> (json list \<times> nat) option" and
  parse_members :: "token list \<Rightarrow> ((jstring \<times> json) list \<times> nat) option"
where
  "parse_value [] = None"
| "parse_value (TNull # ts) = Some (JNull, 1)"
| "parse_value (TTrue # ts) = Some (JBool True, 1)"
| "parse_value (TFalse # ts) = Some (JBool False, 1)"
| "parse_value (TNumber m e # ts) = Some (JNumber m e, 1)"
| "parse_value (TString s # ts) = Some (JString s, 1)"
| "parse_value (TLBracket # TRBracket # ts) = Some (JArray [], 2)"
| "parse_value (TLBracket # ts) =
     (case parse_elements ts of None \<Rightarrow> None | Some (vs, n) \<Rightarrow> Some (JArray vs, n + 1))"
| "parse_value (TLBrace # TRBrace # ts) = Some (JObject [], 2)"
| "parse_value (TLBrace # ts) =
     (case parse_members ts of None \<Rightarrow> None | Some (ms, n) \<Rightarrow> Some (JObject ms, n + 1))"
| "parse_value (_ # ts) = None"
| "parse_elements ts =
     (case parse_value ts of
        None \<Rightarrow> None
      | Some (v, n) \<Rightarrow>
          (case drop n ts of
             TRBracket # _ \<Rightarrow> Some ([v], n + 1)
           | TComma # rest \<Rightarrow>
               (case parse_elements rest of
                  None \<Rightarrow> None
                | Some (vs, k) \<Rightarrow> Some (v # vs, n + 1 + k))
           | _ \<Rightarrow> None))"
| "parse_members (TString key # TColon # ts) =
     (case parse_value ts of
        None \<Rightarrow> None
      | Some (v, n) \<Rightarrow>
          (case drop n ts of
             TRBrace # _ \<Rightarrow> Some ([(key, v)], n + 3)
           | TComma # rest \<Rightarrow>
               (case parse_members rest of
                  None \<Rightarrow> None
                | Some (ms, k) \<Rightarrow> Some (obj_add key v ms, n + 3 + k))
           | _ \<Rightarrow> None))"
| "parse_members _ = None"
  by pat_completeness auto
termination
  apply (relation "measure (\<lambda>x. case x of
            Inl ts \<Rightarrow> 2 * length ts
          | Inr (Inl ts) \<Rightarrow> 2 * length ts + 1
          | Inr (Inr ts) \<Rightarrow> 2 * length ts + 1)")
  apply simp_all
   apply (drule arg_cong [where f = length], simp)+
  done

definition JSON_parse_text :: "jstring \<Rightarrow> json option" where
  "JSON_parse_text s =
     (case lex s of
        None \<Rightarrow> None
      | Some ts \<Rightarrow>
          (case parse_value ts of
             None \<Rightarrow> None
           | Some (v, n) \<Rightarrow> if n = length ts then Some v else None))"

subsection \<open>Peers, calls, platform and state\<close>

text \<open>
  A \<open>PeerContext\<close> as \<open>createPeer\<close> builds it: the \<open>sendMessage\<close> closure, which is
  determined by the \<open>ws\<close> it captured, and the optional \<open>id\<close> that the protocol core
  assigns later.
\<close>

record PeerContext =
  peer_id :: "byte list option"
  captured_ws :: conn

text \<open>
  Modelled from the spec: the protocol core (\<open>./tracker\<close>, not among the sources) is seen
  through its interface only. \<open>processMessage(json, peer)\<close> returns, raises the
  distinguished \<open>TrackerError\<close>, or raises anything else; \<open>disconnectPeer(peer)\<close> returns.
  Each call the gateway makes on the core, on the transport (\<open>ws.close()\<close>, \<open>ws.send\<close>)
  and on the \<open>debugMessages\<close> logger is recorded, in order.
\<close>

datatype 'v call =
    ProcessMessage json addr
  | DisconnectPeer addr
  | WsClose conn
  | WsSend conn jstring
  | DebugIn string json
  | DebugOut string 'v

text \<open>
  The platform the module is linked against: the module-level \<open>decoder.end\<close>, the
  built-in \<open>JSON.parse\<close> (\<open>None\<close> when it throws its \<open>SyntaxError\<close>), the module
  constant \<open>debugMessagesEnabled\<close>, and what a method of a \<open>WebSocket\<close> does when the
  socket is already closed (\<open>None\<close>: nothing, \<open>Some e\<close>: it throws \<open>e\<close>). The
  handlers are written against these as parameters; \<open>node\<close> is the platform with the
  decoder and the parser defined above.
\<close>

record platform =
  decoder_end :: "byte list \<Rightarrow> jstring"
  JSON_parse :: "jstring \<Rightarrow> json option"
  debugMessagesEnabled :: bool
  closed_access :: "thrown option"

definition node :: "bool \<Rightarrow> thrown option \<Rightarrow> platform" where
  "node dbg ca = \<lparr> decoder_end = StringDecoder_end, JSON_parse = JSON_parse_text,
                   debugMessagesEnabled = dbg, closed_access = ca \<rparr>"

datatype sock_state = Unopened | SOpen | SClosed

text \<open>
  The state the handlers read and write: the private field \<open>webSocketsCount\<close> (a
  JavaScript number that only ever takes \<open>++\<close> and \<open>--\<close>, exact on integers), the
  \<open>peer\<close> property of every \<open>ws\<close> object, the heap of \<open>PeerContext\<close> objects (the
  address of an object is its index), the transport's own view of every socket, the
  calls made so far, and the exceptions that left a handler.
\<close>

record 'v world =
  webSocketsCount :: int
  ws_peer :: "conn \<Rightarrow> addr option"
  heap :: "PeerContext list"
  sock :: "conn \<Rightarrow> sock_state"
  calls :: "'v call list"
  uncaught :: "thrown list"

definition init :: "'v world" where
  "init = \<lparr> webSocketsCount = 0, ws_peer = (\<lambda>_. None), heap = [],
            sock = (\<lambda>_. Unopened), calls = [], uncaught = [] \<rparr>"

definition stats :: "'v world \<Rightarrow> int" where
  "stats w = webSocketsCount w"

definition emit :: "'v call \<Rightarrow> 'v world \<Rightarrow> 'v world" where
  "emit x w = w\<lparr>calls := calls w @ [x]\<rparr>"

subsection \<open>Diagnostics label\<close>

definition hex_digit :: "nat \<Rightarrow> char" where
  "hex_digit n = (''0123456789abcdef'') ! (n mod 16)"

definition hex_of_byte :: "byte \<Rightarrow> string" where
  "hex_of_byte b = [hex_digit (unat b div 16), hex_digit (unat b)]"

text \<open>
  \<open>id !== undefined ? Buffer.from(id).toString("hex") : "unknown peer"\<close>
\<close>

definition peer_label :: "byte list option \<Rightarrow> string" where
  "peer_label i = (case i of None \<Rightarrow> ''unknown peer'' | Some bs \<Rightarrow> concat (map hex_of_byte bs))"

definition id_at :: "'v world \<Rightarrow> addr \<Rightarrow> byte list option" where
  "id_at w a = (if a < length (heap w) then peer_id (heap w ! a) else None)"

subsection \<open>Handlers\<close>

text \<open>The \<open>open\<close> handler: \<open>this.webSocketsCount++\<close>.\<close>

definition onOpen :: "conn \<Rightarrow> 'v world \<Rightarrow> 'v world" where
  "onOpen ws w = w\<lparr>webSocketsCount := webSocketsCount w + 1\<rparr>"

text \<open>
  \<open>onClose\<close>: the counter is decremented first, unconditionally; then, if \<open>ws.peer\<close> is
  defined, the property is deleted and \<open>disconnectPeer\<close> is called with the peer.
\<close>

definition onClose :: "conn \<Rightarrow> 'v world \<Rightarrow> 'v world" where
  "onClose ws w =
     (let w1 = w\<lparr>webSocketsCount := webSocketsCount w - 1\<rparr>
      in case ws_peer w1 ws of
           None \<Rightarrow> w1
         | Some peer \<Rightarrow> emit (DisconnectPeer peer) (w1\<lparr>ws_peer := (ws_peer w1)(ws := None)\<rparr>))"

text \<open>
  The transport's \<open>ws.close()\<close>: on an open socket it closes the socket and calls the
  \<open>close\<close> handler before it returns.
\<close>

definition ws_close :: "platform \<Rightarrow> conn \<Rightarrow> 'v world \<Rightarrow> thrown option \<times> 'v world" where
  "ws_close rt ws w =
     (let w1 = emit (WsClose ws) w
      in if sock w ws = SOpen
         then (None, onClose ws (w1\<lparr>sock := (sock w1)(ws := SClosed)\<rparr>))
         else (closed_access rt, w1))"

text \<open>The transport's \<open>ws.send(text, false, false)\<close>.\<close>

definition ws_send :: "platform \<Rightarrow> conn \<Rightarrow> jstring \<Rightarrow> 'v world \<Rightarrow> thrown option \<times> 'v world" where
  "ws_send rt ws text w =
     (if sock w ws = SOpen then (None, emit (WsSend ws text) w) else (closed_access rt, w))"

text \<open>\<open>createPeer(ws)\<close> allocates a new object whose \<open>id\<close> is not set.\<close>

definition createPeer :: "conn \<Rightarrow> 'v world \<Rightarrow> addr \<times> 'v world" where
  "createPeer ws w =
     (length (heap w), w\<lparr>heap := heap w @ [\<lparr>peer_id = None, captured_ws = ws\<rparr>]\<rparr>)"

text \<open>
  Lines 107 to 111 of \<open>onMessage\<close>: the peer of \<open>ws\<close>, created and attached when
  \<open>ws.peer\<close> is undefined.
\<close>

definition resolve :: "conn \<Rightarrow> 'v world \<Rightarrow> addr \<times> 'v world" where
  "resolve ws w =
     (case ws_peer w ws of
        Some peer \<Rightarrow> (peer, w)
      | None \<Rightarrow>
          (let (peer, w1) = createPeer ws w
           in (peer, w1\<lparr>ws_peer := (ws_peer w1)(ws \<mapsto> peer)\<rparr>)))"

text \<open>
  \<open>onMessage\<close>. The argument \<open>reaction\<close> is what \<open>processMessage\<close> does when it is called
  (\<open>None\<close>: it returns). The result is the exception that leaves the handler, if any.
\<close>

definition onMessage ::
  "platform \<Rightarrow> conn \<Rightarrow> byte list \<Rightarrow> thrown option \<Rightarrow> 'v world \<Rightarrow> thrown option \<times> 'v world" where
  "onMessage rt ws message reaction w =
     (case JSON_parse rt (decoder_end rt message) of
        None \<Rightarrow> ws_close rt ws w
      | Some json \<Rightarrow>
          (let (peer, w1) = resolve ws w;
               w2 = (if debugMessagesEnabled rt
                     then emit (DebugIn (peer_label (id_at w1 peer)) json) w1 else w1);
               w3 = emit (ProcessMessage json peer) w2
           in case reaction of
                None \<Rightarrow> (None, w3)
              | Some e \<Rightarrow> if instanceof_TrackerError e then ws_close rt ws w3 else (Some e, w3)))"

text \<open>
  The \<open>sendMessage\<close> closure of the peer that captured \<open>ws\<close>. The argument
  \<open>stringified\<close> is what \<open>JSON.stringify(json)\<close> evaluates to for the value passed
  (\<open>Inl\<close>: it throws). With diagnostics on, the closure reads \<open>ws.peer.id\<close>, which is a
  \<open>TypeError\<close> when \<open>ws.peer\<close> is undefined.
\<close>

definition sendMessage ::
  "platform \<Rightarrow> conn \<Rightarrow> 'v \<Rightarrow> thrown + jstring \<Rightarrow> 'v world \<Rightarrow> thrown option \<times> 'v world" where
  "sendMessage rt ws v stringified w =
     (case stringified of
        Inl e \<Rightarrow> (Some e, w)
      | Inr text \<Rightarrow>
          (case ws_send rt ws text w of
             (Some e, w1) \<Rightarrow> (Some e, w1)
           | (None, w1) \<Rightarrow>
               if debugMessagesEnabled rt
               then (case ws_peer w1 ws of
                       None \<Rightarrow> (Some (TypeError ''Cannot read property id of undefined''), w1)
                     | Some p \<Rightarrow> (None, emit (DebugOut (peer_label (id_at w1 p)) v) w1))
               else (None, w1)))"

subsection \<open>Events\<close>

text \<open>
  What reaches the module from outside: the transport's four signals for a socket
  (\<open>Message\<close> carries the frame and the core's reaction to it), and the core using a
  peer it was given: calling its \<open>sendMessage\<close> (\<open>Send\<close> carries the value and its
  \<open>JSON.stringify\<close>), or assigning its \<open>id\<close>. What the core does with a peer while
  \<open>processMessage\<close> runs is an event of its own, next to the \<open>Message\<close>.
\<close>

datatype 'v event =
    Open conn
  | Message conn "byte list" "thrown option"
  | Drain conn
  | Close conn
  | Send addr 'v "thrown + jstring"
  | AssignId addr "byte list"

fun deliver :: "platform \<Rightarrow> 'v event \<Rightarrow> 'v world \<Rightarrow> thrown option \<times> 'v world" where
  "deliver rt (Open c) w = (None, onOpen c (w\<lparr>sock := (sock w)(c := SOpen)\<rparr>))"
| "deliver rt (Message c m r) w = onMessage rt c m r w"
| "deliver rt (Drain c) w = (None, w)"
| "deliver rt (Close c) w = (None, onClose c (w\<lparr>sock := (sock w)(c := SClosed)\<rparr>))"
| "deliver rt (Send a v s) w =
     (if a < length (heap w) then sendMessage rt (captured_ws (heap w ! a)) v s w else (None, w))"
| "deliver rt (AssignId a i) w =
     (if a < length (heap w)
      then (None, w\<lparr>heap := (heap w)[a := (heap w ! a)\<lparr>peer_id := Some i\<rparr>]\<rparr>)
      else (None, w))"

text \<open>An exception that leaves a handler reaches the process; the state stays as it is.\<close>

definition step :: "platform \<Rightarrow> 'v event \<Rightarrow> 'v world \<Rightarrow> 'v world" where
  "step rt e w =
     (case deliver rt e w of
        (None, w1) \<Rightarrow> w1
      | (Some x, w1) \<Rightarrow> w1\<lparr>uncaught := uncaught w1 @ [x]\<rparr>)"

fun run :: "platform \<Rightarrow> 'v event list \<Rightarrow> 'v world \<Rightarrow> 'v world" where
  "run rt [] w = w"
| "run rt (e # es) w = run rt es (step rt e w)"

subsection \<open>The transport's delivery contract\<close>

text \<open>
  The transport opens a socket once, delivers \<open>message\<close>, \<open>drain\<close> and \<open>close\<close> only for
  a socket that is open, and the core can only use a peer that exists.
\<close>

fun allowed :: "'v world \<Rightarrow> 'v event \<Rightarrow> bool" where
  "allowed w (Open c) = (sock w c = Unopened)"
| "allowed w (Message c m r) = (sock w c = SOpen)"
| "allowed w (Drain c) = (sock w c = SOpen)"
| "allowed w (Close c) = (sock w c = SOpen)"
| "allowed w (Send a v s) = (a < length (heap w))"
| "allowed w (AssignId a i) = (a < length (heap w))"

fun lifecycle :: "platform \<Rightarrow> 'v world \<Rightarrow> 'v event list \<Rightarrow> bool" where
  "lifecycle rt w [] = True"
| "lifecycle rt w (e # es) = (allowed w e \<and> lifecycle rt (step rt e w) es)"

text \<open>
  The connections opened and not yet closed after a sequence of \<open>open\<close> and \<open>close\<close>
  signals, read off the signals alone.
\<close>

fun live_after :: "conn list \<Rightarrow> 'v event \<Rightarrow> conn list" where
  "live_after cs (Open c) = List.insert c cs"
| "live_after cs (Close c) = removeAll c cs"
| "live_after cs _ = cs"

definition live :: "'v event list \<Rightarrow> conn list" where
  "live evs = foldl live_after [] evs"

fun open_or_close :: "'v event \<Rightarrow> bool" where
  "open_or_close (Open c) = True"
| "open_or_close (Close c) = True"
| "open_or_close _ = False"

text \<open>
  The connections a sequence opens, and how many of a list of connections the transport
  has open.
\<close>

fun opened :: "'v event list \<Rightarrow> conn list" where
  "opened [] = []"
| "opened (Open c # es) = c # opened es"
| "opened (_ # es) = opened es"

definition open_count :: "'v world \<Rightarrow> conn list \<Rightarrow> nat" where
  "open_count w cs = length (filter (\<lambda>c. sock w c = SOpen) cs)"

text \<open>A frame of the sequence, on connection \<open>c\<close>, that \<open>JSON.parse\<close> accepted.\<close>

fun decodes :: "platform \<Rightarrow> conn \<Rightarrow> 'v event \<Rightarrow> bool" where
  "decodes rt c (Message c' m r) = (c' = c \<and> JSON_parse rt (decoder_end rt m) \<noteq> None)"
| "decodes rt c _ = False"

definition decoded :: "platform \<Rightarrow> conn \<Rightarrow> 'v event list \<Rightarrow> bool" where
  "decoded rt c evs = list_ex (decodes rt c) evs"

text \<open>The peers on the heap that \<open>createPeer\<close> built for connection \<open>c\<close>.\<close>

definition peers_of :: "'v world \<Rightarrow> conn \<Rightarrow> addr list" where
  "peers_of w c = filter (\<lambda>a. captured_ws (heap w ! a) = c) [0..<length (heap w)]"

text \<open>The calls a step added.\<close>

definition new_calls :: "'v world \<Rightarrow> 'v world \<Rightarrow> 'v call list" where
  "new_calls w w1 = drop (length (calls w)) (calls w1)"


subsection \<open>Invariants of the reachable states\<close>

text \<open>
  An attached peer is on the heap, was built for the connection it is attached to, and
  has not been passed to \<open>disconnectPeer\<close>; only peers on the heap have been.
\<close>

definition heap_ok :: "'v world \<Rightarrow> bool" where
  "heap_ok w \<longleftrightarrow>
     (\<forall>c a. ws_peer w c = Some a \<longrightarrow>
        a < length (heap w) \<and> captured_ws (heap w ! a) = c \<and> DisconnectPeer a \<notin> set (calls w))
   \<and> (\<forall>a. DisconnectPeer a \<in> set (calls w) \<longrightarrow> a < length (heap w))"

text \<open>
  A peer that is attached nowhere, with the number of \<open>disconnectPeer\<close> calls made for it.
\<close>

definition released :: "'v world \<Rightarrow> addr \<Rightarrow> nat \<Rightarrow> bool" where
  "released w a n \<longleftrightarrow>
     a < length (heap w) \<and> (\<forall>c. ws_peer w c \<noteq> Some a)
   \<and> count_list (calls w) (DisconnectPeer a) = n"

text \<open>
  Per connection, along a delivery that keeps the transport's contract, with \<open>D c\<close>
  saying that a frame on \<open>c\<close> decoded: a peer is attached only while the socket is open;
  an attached peer is the one peer built for the connection; before the first decoded
  frame there is none; and a closed connection has had its peer, if any, disconnected.
\<close>

definition tidy1 :: "(conn \<Rightarrow> bool) \<Rightarrow> 'v world \<Rightarrow> conn \<Rightarrow> bool" where
  "tidy1 D w c \<longleftrightarrow>
       (ws_peer w c = None \<or> sock w c = SOpen)
     \<and> (\<forall>a. ws_peer w c = Some a \<longrightarrow>
            peers_of w c = [a] \<and> D c \<and> DisconnectPeer a \<notin> set (calls w))
     \<and> (ws_peer w c = None \<and> sock w c \<noteq> SClosed \<longrightarrow> peers_of w c = [] \<and> \<not> D c)
     \<and> (sock w c = SClosed \<longrightarrow>
           (if D c then \<exists>a. peers_of w c = [a] \<and> DisconnectPeer a \<in> set (calls w)
            else peers_of w c = []))"

definition tidy :: "(conn \<Rightarrow> bool) \<Rightarrow> 'v world \<Rightarrow> bool" where
  "tidy D w \<longleftrightarrow> (\<forall>c. tidy1 D w c)"

text \<open>\<open>disconnectPeer\<close> has been called with a peer built for connection \<open>c\<close>.\<close>

definition disconnect_notified :: "'v world \<Rightarrow> conn \<Rightarrow> bool" where
  "disconnect_notified w c = list_ex (\<lambda>a. DisconnectPeer a \<in> set (calls w)) (peers_of w c)"

text \<open>The heap only grows, and a peer keeps the \<open>ws\<close> it captured.\<close>

definition heap_extends :: "'v world \<Rightarrow> 'v world \<Rightarrow> bool" where
  "heap_extends w w1 \<longleftrightarrow>
     length (heap w) \<le> length (heap w1)
   \<and> (\<forall>a < length (heap w). captured_ws (heap w1 ! a) = captured_ws (heap w ! a))"

section \<open>Properties\<close>

lemma run_append: "run rt (es @ fs) w = run rt fs (run rt es w)"
  by (induction es arbitrary: w) auto

lemmas handler_defs = onMessage_def resolve_def createPeer_def ws_close_def onClose_def emit_def
  new_calls_def Let_def

lemmas node_eval = node_def StringDecoder_end_def JSON_parse_text_def utf8_lead_def
  utf16_units_def is_ws_def is_digit_def

lemmas run_eval = step_def onOpen_def init_def handler_defs

subsection \<open>Concrete frames\<close>

text \<open>
  The frames \<open>{\<close>, \<open>{}\<close>, \<open>"\<close> \<open>0xFF\<close> \<open>"\<close> and the single byte \<open>0xFF\<close> on the
  \<open>node\<close> platform.
\<close>

lemma brace_rejected: "JSON_parse (node dbg ca) (decoder_end (node dbg ca) [0x7B]) = None"
  by (simp add: node_eval)

lemma empty_object_parsed:
  "JSON_parse (node dbg ca) (decoder_end (node dbg ca) [0x7B, 0x7D]) = Some (JObject [])"
  by (simp add: node_eval)



lemma opened_once: "sock (run rt [Open 0] init) 0 = SOpen"
  by (simp add: step_def onOpen_def init_def)

lemma opened_once_peer: "ws_peer (run rt [Open 0] init) 0 = None"
  by (simp add: step_def onOpen_def init_def)

subsection \<open>The message handler\<close>

text \<open>
  C6. A frame whose text \<open>JSON.parse\<close> rejects, on an open connection: the handler
  returns normally, the connection is closed, and the only calls made are \<open>ws.close()\<close>
  and the \<open>disconnectPeer\<close> it triggers for a peer attached earlier. \<open>processMessage\<close> is
  not called, and no peer is created for the frame.
\<close>

theorem parse_error_closes:
  assumes "JSON_parse rt (decoder_end rt m) = None" and "sock w ws = SOpen"
  shows "fst (onMessage rt ws m r w) = None
       \<and> sock (snd (onMessage rt ws m r w)) ws = SClosed
       \<and> new_calls w (snd (onMessage rt ws m r w)) =
           WsClose ws # (case ws_peer w ws of None \<Rightarrow> [] | Some p \<Rightarrow> [DisconnectPeer p])
       \<and> heap (snd (onMessage rt ws m r w)) = heap w"
  using assms by (simp add: handler_defs split: option.splits)

theorem parse_error_closes_witness:
  "JSON_parse (node False None) (decoder_end (node False None) [0x7B]) = None
   \<and> sock (run (node False None) [Open 0] (init :: json world)) 0 = SOpen
   \<and> fst (onMessage (node False None) 0 [0x7B] None
            (run (node False None) [Open 0] (init :: json world))) = None
   \<and> sock (snd (onMessage (node False None) 0 [0x7B] None
                  (run (node False None) [Open 0] (init :: json world)))) 0 = SClosed
   \<and> new_calls (run (node False None) [Open 0] (init :: json world))
         (snd (onMessage (node False None) 0 [0x7B] None
                (run (node False None) [Open 0] (init :: json world))))
       = [WsClose 0]"
proof -
  have h1: "JSON_parse (node False None) (decoder_end (node False None) [0x7B]) = None"
    by (rule brace_rejected)
  have h2: "sock (run (node False None) [Open 0] (init :: json world)) 0 = SOpen"
    by (rule opened_once)
  have h3: "ws_peer (run (node False None) [Open 0] (init :: json world)) 0 = None"
    by (rule opened_once_peer)
  from parse_error_closes [OF h1 h2, where r = None] h1 h2 h3
  show ?thesis
    by simp
qed

text \<open>
  C3. A frame that decoded, on an open connection. When \<open>processMessage\<close> raises a
  \<open>TrackerError\<close>, the handler calls \<open>ws.close()\<close>, the connection is closed and nothing
  leaves the handler; when it raises anything else, that value leaves the handler.
\<close>

theorem tracker_error_contained_other_rethrown:
  assumes "JSON_parse rt (decoder_end rt m) = Some j" and "sock w ws = SOpen"
  shows "(instanceof_TrackerError e \<longrightarrow>
            fst (onMessage rt ws m (Some e) w) = None
          \<and> sock (snd (onMessage rt ws m (Some e) w)) ws = SClosed
          \<and> WsClose ws \<in> set (new_calls w (snd (onMessage rt ws m (Some e) w))))
       \<and> (\<not> instanceof_TrackerError e \<longrightarrow> fst (onMessage rt ws m (Some e) w) = Some e)"
  using assms by (simp add: handler_defs split: option.splits prod.splits)

theorem tracker_error_contained_other_rethrown_witness:
  "JSON_parse (node False None) (decoder_end (node False None) [0x7B, 0x7D]) = Some (JObject [])
   \<and> sock (run (node False None) [Open 0] (init :: json world)) 0 = SOpen
   \<and> fst (onMessage (node False None) 0 [0x7B, 0x7D] (Some (TrackerError ''unknown action''))
            (run (node False None) [Open 0] (init :: json world))) = None
   \<and> sock (snd (onMessage (node False None) 0 [0x7B, 0x7D] (Some (TrackerError ''unknown action''))
                  (run (node False None) [Open 0] (init :: json world)))) 0 = SClosed
   \<and> WsClose 0 \<in> set (new_calls (run (node False None) [Open 0] (init :: json world))
         (snd (onMessage (node False None) 0 [0x7B, 0x7D] (Some (TrackerError ''unknown action''))
                (run (node False None) [Open 0] (init :: json world)))))
   \<and> fst (onMessage (node False None) 0 [0x7B, 0x7D] (Some (OtherError ''defect''))
            (run (node False None) [Open 0] (init :: json world))) = Some (OtherError ''defect'')"
proof -
  have h1: "JSON_parse (node False None) (decoder_end (node False None) [0x7B, 0x7D])
              = Some (JObject [])"
    by (rule empty_object_parsed)
  have h2: "sock (run (node False None) [Open 0] (init :: json world)) 0 = SOpen"
    by (rule opened_once)
  from tracker_error_contained_other_rethrown [OF h1 h2, where e = "TrackerError ''unknown action''"]
    tracker_error_contained_other_rethrown [OF h1 h2, where e = "OtherError ''defect''"] h1 h2
  show ?thesis
    by simp
qed

text \<open>
  C9. A frame that decoded, for which \<open>processMessage\<close> raises something that is not a
  \<open>TrackerError\<close>: the value leaves the handler, \<open>ws.close()\<close> is not among the calls
  made, no socket changes state, the peer the handler resolved is attached to the
  connection, and the counter is what it was.
\<close>

theorem other_error_leaves_connection:
  assumes "JSON_parse rt (decoder_end rt m) = Some j" and "\<not> instanceof_TrackerError e"
  shows "fst (onMessage rt ws m (Some e) w) = Some e
       \<and> WsClose c \<notin> set (new_calls w (snd (onMessage rt ws m (Some e) w)))
       \<and> sock (snd (onMessage rt ws m (Some e) w)) = sock w
       \<and> ws_peer (snd (onMessage rt ws m (Some e) w)) ws = Some (fst (resolve ws w))
       \<and> (ws_peer w ws \<noteq> None \<longrightarrow> ws_peer (snd (onMessage rt ws m (Some e) w)) ws = ws_peer w ws)
       \<and> stats (snd (onMessage rt ws m (Some e) w)) = stats w"
  using assms by (auto simp add: handler_defs stats_def split: option.splits prod.splits)

theorem other_error_leaves_connection_witness:
  "JSON_parse (node False None) (decoder_end (node False None) [0x7B, 0x7D]) = Some (JObject [])
   \<and> \<not> instanceof_TrackerError (OtherError ''defect'')
   \<and> ws_peer (run (node False None) [Open 0, Message 0 [0x7B, 0x7D] None] (init :: json world)) 0 \<noteq> None
   \<and> fst (onMessage (node False None) 0 [0x7B, 0x7D] (Some (OtherError ''defect''))
            (run (node False None) [Open 0, Message 0 [0x7B, 0x7D] None] (init :: json world)))
       = Some (OtherError ''defect'')
   \<and> WsClose 0 \<notin> set (new_calls
         (run (node False None) [Open 0, Message 0 [0x7B, 0x7D] None] (init :: json world))
         (snd (onMessage (node False None) 0 [0x7B, 0x7D] (Some (OtherError ''defect''))
            (run (node False None) [Open 0, Message 0 [0x7B, 0x7D] None] (init :: json world)))))
   \<and> sock (snd (onMessage (node False None) 0 [0x7B, 0x7D] (Some (OtherError ''defect''))
            (run (node False None) [Open 0, Message 0 [0x7B, 0x7D] None] (init :: json world)))) 0
       = SOpen
   \<and> ws_peer (snd (onMessage (node False None) 0 [0x7B, 0x7D] (Some (OtherError ''defect''))
            (run (node False None) [Open 0, Message 0 [0x7B, 0x7D] None] (init :: json world)))) 0
       = Some 0
   \<and> stats (snd (onMessage (node False None) 0 [0x7B, 0x7D] (Some (OtherError ''defect''))
            (run (node False None) [Open 0, Message 0 [0x7B, 0x7D] None] (init :: json world))))
       = 1"
proof -
  have h1: "JSON_parse (node False None) (decoder_end (node False None) [0x7B, 0x7D])
              = Some (JObject [])"
    by (rule empty_object_parsed)
  have h2: "\<not> instanceof_TrackerError (OtherError ''defect'')"
    by simp
  have w: "run (node False None) [Open 0, Message 0 [0x7B, 0x7D] None] (init :: json world)
           = \<lparr> webSocketsCount = 1, ws_peer = (\<lambda>_. None)(0 \<mapsto> 0),
               heap = [\<lparr>peer_id = None, captured_ws = 0\<rparr>],
               sock = (\<lambda>_. Unopened)(0 := SOpen),
               calls = [ProcessMessage (JObject []) 0], uncaught = [] \<rparr>"
    using h1 by (simp add: run_eval) (simp add: node_def)
  from other_error_leaves_connection [OF h1 h2, where ws = 0 and c = 0
      and w = "run (node False None) [Open 0, Message 0 [0x7B, 0x7D] None] (init :: json world)"]
    h1 h2
  show ?thesis
    unfolding w by (simp add: stats_def resolve_def)
qed




subsection \<open>Projections of the handlers\<close>

lemma count_onClose: "webSocketsCount (onClose c w) = webSocketsCount w - 1"
  by (simp add: onClose_def emit_def Let_def split: option.splits)

lemma sock_onClose: "sock (onClose c w) = sock w"
  by (simp add: onClose_def emit_def Let_def split: option.splits)

lemma ws_peer_onClose: "ws_peer (onClose c w) = (ws_peer w)(c := None)"
  by (auto simp: onClose_def emit_def Let_def split: option.splits)

lemma heap_onClose: "heap (onClose c w) = heap w"
  by (simp add: onClose_def emit_def Let_def split: option.splits)

lemma calls_onClose:
  "calls (onClose c w) = calls w @ (case ws_peer w c of None \<Rightarrow> [] | Some a \<Rightarrow> [DisconnectPeer a])"
  by (simp add: onClose_def emit_def Let_def split: option.splits)

lemma sock_ws_close:
  "sock (snd (ws_close rt c w)) = (if sock w c = SOpen then (sock w)(c := SClosed) else sock w)"
  by (simp add: ws_close_def Let_def sock_onClose emit_def)

lemma heap_ws_close: "heap (snd (ws_close rt c w)) = heap w"
  by (simp add: ws_close_def Let_def heap_onClose emit_def)

lemma sock_resolve: "sock (snd (resolve c w)) = sock w"
  by (simp add: resolve_def createPeer_def split: option.splits)

lemma sendMessage_state:
  "snd (sendMessage rt c v s w) = w \<or> (\<exists>x. (\<forall>a. x \<noteq> DisconnectPeer a) \<and> snd (sendMessage rt c v s w) = emit x w)
   \<or> (\<exists>x y. (\<forall>a. x \<noteq> DisconnectPeer a) \<and> (\<forall>a. y \<noteq> DisconnectPeer a) \<and> snd (sendMessage rt c v s w) = emit y (emit x w))"
  by (auto simp: sendMessage_def ws_send_def split: sum.splits option.splits prod.splits)

lemma sock_sendMessage: "sock (snd (sendMessage rt c v s w)) = sock w"
  using sendMessage_state [of rt c v s w] by (auto simp: emit_def)

lemma heap_sendMessage: "heap (snd (sendMessage rt c v s w)) = heap w"
  using sendMessage_state [of rt c v s w] by (auto simp: emit_def)

lemma sock_onMessage:
  "sock (snd (onMessage rt c m r w)) = sock w \<or>
   (sock w c = SOpen \<and> sock (snd (onMessage rt c m r w)) = (sock w)(c := SClosed))"
  unfolding onMessage_def Let_def
  by (auto split: option.splits prod.splits simp: sock_ws_close emit_def
      dest: arg_cong [where f = "\<lambda>p. sock (snd p)", of "resolve c w"] simp: sock_resolve)

lemma lifecycle_append:
  "lifecycle rt w (es @ fs) \<longleftrightarrow> lifecycle rt w es \<and> lifecycle rt (run rt es w) fs"
  by (induction es arbitrary: w) auto

lemma lifecycle_take: "lifecycle rt w evs \<Longrightarrow> lifecycle rt w (take n evs)"
  using lifecycle_append [of rt w "take n evs" "drop n evs"] by simp

subsection \<open>The connection counter\<close>

lemma counter_inv:
  assumes "lifecycle rt w evs" "list_all open_or_close evs" "distinct L"
    "set L = {c. sock w c = SOpen}" "webSocketsCount w = int (length L)"
  shows "webSocketsCount (run rt evs w) = int (length (foldl live_after L evs))"
  using assms
proof (induction evs arbitrary: w L)
  case Nil
  then show ?case by simp
next
  case (Cons e evs)
  show ?case
  proof (cases e)
    case (Open c)
    have fresh: "c \<notin> set L"
      using Cons.prems Open by auto
    let ?w = "step rt e w"
    have "webSocketsCount (run rt evs ?w) = int (length (foldl live_after (c # L) evs))"
    proof (rule Cons.IH)
      show "lifecycle rt ?w evs" using Cons.prems by simp
      show "list_all open_or_close evs" using Cons.prems by simp
      show "distinct (c # L)" using Cons.prems fresh by simp
      show "set (c # L) = {c'. sock ?w c' = SOpen}"
        using Cons.prems Open by (auto simp: step_def onOpen_def)
      show "webSocketsCount ?w = int (length (c # L))"
        using Cons.prems Open by (simp add: step_def onOpen_def)
    qed
    then show ?thesis using Open fresh by (simp add: List.insert_def)
  next
    case (Close c)
    have mem: "c \<in> set L"
      using Cons.prems Close by auto
    let ?w = "step rt e w"
    have len: "length (removeAll c L) = length L - 1"
      using Cons.prems(3) mem by (simp add: distinct_remove1_removeAll [symmetric] length_remove1)
    have pos: "0 < length L"
      using mem by (cases L) auto
    have "webSocketsCount (run rt evs ?w) = int (length (foldl live_after (removeAll c L) evs))"
    proof (rule Cons.IH)
      show "lifecycle rt ?w evs" using Cons.prems by simp
      show "list_all open_or_close evs" using Cons.prems by simp
      show "distinct (removeAll c L)" using Cons.prems by (simp add: distinct_removeAll)
      show "set (removeAll c L) = {c'. sock ?w c' = SOpen}"
        using Cons.prems Close by (auto simp: step_def sock_onClose)
      have "int (length (removeAll c L)) = int (length L) - 1"
        using len pos by arith
      then show "webSocketsCount ?w = int (length (removeAll c L))"
        using Cons.prems Close by (simp add: step_def count_onClose)
    qed
    then show ?thesis using Close by simp
  qed (use Cons.prems in auto)
qed

text \<open>
  C1, as the code has it. Along a sequence of \<open>open\<close> and \<open>close\<close> signals in which every
  connection is opened once and closed only while it is open, the counter read through
  \<open>stats\<close> is, after every prefix, the number of connections opened and not yet closed,
  and it is not negative.
\<close>

theorem counter_tracks_live:
  assumes "lifecycle rt init evs" and "list_all open_or_close evs"
  shows "\<forall>n\<le>length evs.
           stats (run rt (take n evs) init) = int (length (live (take n evs)))
         \<and> 0 \<le> stats (run rt (take n evs) init)"
proof (intro allI impI)
  fix n assume "n \<le> length evs"
  have a: "lifecycle rt init (take n evs)"
    using assms(1) by (rule lifecycle_take)
  have b: "list_all open_or_close (take n evs)"
    using assms(2) by (auto simp: list_all_iff dest: in_set_takeD)
  have "webSocketsCount (run rt (take n evs) init) = int (length (foldl live_after [] (take n evs)))"
    using a b by (rule counter_inv) (simp_all add: init_def)
  then show "stats (run rt (take n evs) init) = int (length (live (take n evs)))
         \<and> 0 \<le> stats (run rt (take n evs) init)"
    by (simp add: stats_def live_def)
qed

theorem counter_tracks_live_witness:
  "lifecycle (node False None) (init :: json world) [Open 0, Open 1, Close 0]
   \<and> list_all open_or_close [Open 0, Open 1, Close 0 :: json event]
   \<and> stats (run (node False None) [Open 0, Open 1, Close 0] (init :: json world)) = 1
   \<and> live [Open 0, Open 1, Close 0 :: json event] = [1]
   \<and> stats (run (node False None) [Open 0, Open 1] (init :: json world)) = 2"
proof -
  have h1: "lifecycle (node False None) (init :: json world) [Open 0, Open 1, Close 0]"
    by (simp add: run_eval)
  have h2: "list_all open_or_close [Open 0, Open 1, Close 0 :: json event]"
    by simp
  have l: "live [Open 0, Open 1, Close 0 :: json event] = [1]"
    by (simp add: live_def)
  have l2: "live [Open 0, Open 1 :: json event] = [1, 0]"
    by (simp add: live_def)
  have s3: "stats (run (node False None) (take 3 [Open 0, Open 1, Close 0]) (init :: json world))
       = int (length (live (take 3 [Open 0, Open 1, Close 0 :: json event])))"
    using counter_tracks_live [OF h1 h2, THEN spec, of 3] by simp
  have s2: "stats (run (node False None) (take 2 [Open 0, Open 1, Close 0]) (init :: json world))
       = int (length (live (take 2 [Open 0, Open 1, Close 0 :: json event])))"
    using counter_tracks_live [OF h1 h2, THEN spec, of 2] by simp
  have t3: "take 3 [Open 0, Open 1, Close 0 :: json event] = [Open 0, Open 1, Close 0]"
    by simp
  have t2: "take 2 [Open 0, Open 1, Close 0 :: json event] = [Open 0, Open 1]"
    by (simp add: numeral_2_eq_2)
  show ?thesis
    using h1 h2 l s3 [unfolded t3 l] s2 [unfolded t2 l2] by simp
qed

text \<open>
  C1, as the claim states it, fails: \<open>onClose\<close> decrements without a guard, so a second
  \<open>close\<close> signal for the same connection takes the counter to -1 while no connection is
  live.
\<close>

theorem repeated_close_decrements_again:
  "stats (run (node False None) [Open 0, Close 0, Close 0] (init :: json world)) = - 1
   \<and> length (live [Open 0, Close 0, Close 0 :: json event]) = 0"
  by (simp add: run_eval stats_def live_def)

text \<open>
  With messages in the sequence as well, some of which make the handler close the
  connection: along any delivery that keeps the transport's contract the counter is the
  number of opened connections whose socket the transport has open.
\<close>

lemma count_ws_close:
  "webSocketsCount (snd (ws_close rt c w)) =
     (if sock w c = SOpen then webSocketsCount w - 1 else webSocketsCount w)"
  by (simp add: ws_close_def Let_def count_onClose emit_def)

lemma count_resolve: "webSocketsCount (snd (resolve c w)) = webSocketsCount w"
  by (simp add: resolve_def createPeer_def split: option.splits)

lemma count_sendMessage: "webSocketsCount (snd (sendMessage rt c v s w)) = webSocketsCount w"
  using sendMessage_state [of rt c v s w] by (auto simp: emit_def)

lemma count_sock_onMessage:
  "(sock (snd (onMessage rt c m r w)) = sock w
      \<and> webSocketsCount (snd (onMessage rt c m r w)) = webSocketsCount w)
 \<or> (sock w c = SOpen \<and> sock (snd (onMessage rt c m r w)) = (sock w)(c := SClosed)
      \<and> webSocketsCount (snd (onMessage rt c m r w)) = webSocketsCount w - 1)"
proof (cases "JSON_parse rt (decoder_end rt m)")
  case None
  then show ?thesis
    by (simp add: onMessage_def sock_ws_close count_ws_close)
next
  case (Some j)
  obtain p w1 where res: "resolve c w = (p, w1)"
    by (cases "resolve c w")
  have w1: "sock w1 = sock w" "webSocketsCount w1 = webSocketsCount w"
    using sock_resolve [of c w] count_resolve [of c w] res by simp_all
  show ?thesis
    using Some res w1
    by (simp add: onMessage_def Let_def sock_ws_close count_ws_close emit_def split: option.splits)
qed

lemma open_count_close:
  assumes "distinct cs" "c \<in> set cs" "sock w c = SOpen"
  shows "int (length (filter (\<lambda>x. ((sock w)(c := SClosed)) x = SOpen) cs))
         = int (length (filter (\<lambda>x. sock w x = SOpen) cs)) - 1"
  using assms
proof (induction cs)
  case Nil
  then show ?case by simp
next
  case (Cons x cs)
  show ?case
  proof (cases "x = c")
    case True
    then have "c \<notin> set cs" using Cons.prems by simp
    then have "filter (\<lambda>x. ((sock w)(c := SClosed)) x = SOpen) cs = filter (\<lambda>x. sock w x = SOpen) cs"
      by (intro filter_cong) auto
    then show ?thesis using True Cons.prems by simp
  next
    case False
    then show ?thesis using Cons by auto
  qed
qed

lemma open_count_same:
  assumes "c \<notin> set cs"
  shows "filter (\<lambda>x. ((sock w)(c := s)) x = SOpen) cs = filter (\<lambda>x. sock w x = SOpen) cs"
  using assms by (intro filter_cong) auto

lemma opened_Cons: "opened (e # es) = opened [e] @ opened es"
  by (cases e) simp_all

lemma step_shape:
  assumes "allowed w e"
  shows "(\<exists>c. opened [e] = [c] \<and> sock w c = Unopened \<and> sock (step rt e w) = (sock w)(c := SOpen)
            \<and> webSocketsCount (step rt e w) = webSocketsCount w + 1)
       \<or> (opened [e] = [] \<and> sock (step rt e w) = sock w
            \<and> webSocketsCount (step rt e w) = webSocketsCount w)
       \<or> (\<exists>c. opened [e] = [] \<and> sock w c = SOpen \<and> sock (step rt e w) = (sock w)(c := SClosed)
            \<and> webSocketsCount (step rt e w) = webSocketsCount w - 1)"
proof (cases e)
  case (Open c)
  with assms show ?thesis by (simp add: step_def onOpen_def)
next
  case (Message c m r)
  have "sock (step rt e w) = sock (snd (onMessage rt c m r w))"
    "webSocketsCount (step rt e w) = webSocketsCount (snd (onMessage rt c m r w))"
    using Message by (auto simp: step_def split: prod.splits option.splits)
  with count_sock_onMessage [of rt c m r w] Message show ?thesis
    by auto
next
  case (Drain c)
  then show ?thesis by (simp add: step_def)
next
  case (Close c)
  with assms show ?thesis
    by (auto simp: step_def sock_onClose count_onClose)
next
  case (Send a v s)
  have "sock (snd (deliver rt e w)) = sock w"
    "webSocketsCount (snd (deliver rt e w)) = webSocketsCount w"
    using Send sock_sendMessage [of rt "captured_ws (heap w ! a)" v s w]
      count_sendMessage [of rt "captured_ws (heap w ! a)" v s w]
    by simp_all
  then have "sock (step rt e w) = sock w" "webSocketsCount (step rt e w) = webSocketsCount w"
    by (auto simp: step_def split: prod.splits option.splits)
  with Send show ?thesis by simp
next
  case (AssignId a i)
  then show ?thesis by (simp add: step_def)
qed

lemma counter_general:
  assumes "lifecycle rt w evs" "distinct L" "set L = {c. sock w c \<noteq> Unopened}"
    "webSocketsCount w = int (open_count w L)"
  shows "webSocketsCount (run rt evs w) = int (open_count (run rt evs w) (L @ opened evs))
         \<and> distinct (L @ opened evs)"
  using assms
proof (induction evs arbitrary: w L)
  case Nil
  then show ?case by simp
next
  case (Cons e evs)
  let ?w = "step rt e w"
  have lc: "lifecycle rt ?w evs" and al: "allowed w e"
    using Cons.prems(1) by simp_all
  note dL = Cons.prems(2) and sL = Cons.prems(3) and cL = Cons.prems(4)
  consider
      (opens) c where "opened [e] = [c]" "sock w c = Unopened" "sock ?w = (sock w)(c := SOpen)"
        "webSocketsCount ?w = webSocketsCount w + 1"
    | (same) "opened [e] = []" "sock ?w = sock w" "webSocketsCount ?w = webSocketsCount w"
    | (closes) c where "opened [e] = []" "sock w c = SOpen" "sock ?w = (sock w)(c := SClosed)"
        "webSocketsCount ?w = webSocketsCount w - 1"
    using step_shape [OF al, of rt] by blast
  then show ?case
  proof cases
    case opens
    have fresh: "c \<notin> set L"
      using sL opens(2) by simp
    have "webSocketsCount (run rt evs ?w) = int (open_count (run rt evs ?w) ((L @ [c]) @ opened evs))
          \<and> distinct ((L @ [c]) @ opened evs)"
    proof (rule Cons.IH [OF lc])
      show "distinct (L @ [c])" using dL fresh by simp
      have "{x. ((sock w)(c := SOpen)) x \<noteq> Unopened} = insert c {x. sock w x \<noteq> Unopened}"
        by auto
      then show "set (L @ [c]) = {x. sock ?w x \<noteq> Unopened}"
        using sL opens(3) by simp
      have "filter (\<lambda>x. sock ?w x = SOpen) L = filter (\<lambda>x. sock w x = SOpen) L"
        unfolding opens(3) by (rule open_count_same [OF fresh])
      then show "webSocketsCount ?w = int (open_count ?w (L @ [c]))"
        using cL opens(3,4) by (simp add: open_count_def)
    qed
    then show ?thesis
      using opened_Cons [of e evs] opens(1) by simp
  next
    case same
    have "webSocketsCount (run rt evs ?w) = int (open_count (run rt evs ?w) (L @ opened evs))
          \<and> distinct (L @ opened evs)"
    proof (rule Cons.IH [OF lc])
      show "distinct L" by (rule dL)
      show "set L = {x. sock ?w x \<noteq> Unopened}"
        using sL same(2) by simp
      show "webSocketsCount ?w = int (open_count ?w L)"
        using cL same(2,3) by (simp add: open_count_def)
    qed
    then show ?thesis
      using opened_Cons [of e evs] same(1) by simp
  next
    case closes
    have mem: "c \<in> set L"
      using sL closes(2) by simp
    have "webSocketsCount (run rt evs ?w) = int (open_count (run rt evs ?w) (L @ opened evs))
          \<and> distinct (L @ opened evs)"
    proof (rule Cons.IH [OF lc])
      show "distinct L" by (rule dL)
      have "{x. ((sock w)(c := SClosed)) x \<noteq> Unopened} = {x. sock w x \<noteq> Unopened}"
        using closes(2) by auto
      then show "set L = {x. sock ?w x \<noteq> Unopened}"
        using sL closes(3) by simp
      show "webSocketsCount ?w = int (open_count ?w L)"
        using cL closes(3,4) open_count_close [OF dL mem closes(2)]
        by (simp only: open_count_def)
    qed
    then show ?thesis
      using opened_Cons [of e evs] closes(1) by simp
  qed
qed

lemma counter_counts_open_sockets:
  assumes "lifecycle rt init evs"
  shows "stats (run rt evs init) = int (open_count (run rt evs init) (opened evs))
       \<and> distinct (opened evs)"
  using counter_general [OF assms, of "[]"] by (simp add: stats_def init_def open_count_def)

subsection \<open>Attached peers\<close>

lemma heap_ok_init: "heap_ok init"
  by (simp add: heap_ok_def init_def)

lemma heap_ok_onClose: "heap_ok w \<Longrightarrow> heap_ok (onClose c w)"
  unfolding heap_ok_def onClose_def emit_def Let_def
  by (auto split: option.splits) metis

lemma heap_ok_sock: "heap_ok (w\<lparr>sock := s\<rparr>) = heap_ok w"
  by (simp add: heap_ok_def)

lemma heap_ok_uncaught: "heap_ok (w\<lparr>uncaught := s\<rparr>) = heap_ok w"
  by (simp add: heap_ok_def)

lemma heap_ok_emit: "\<forall>a. x \<noteq> DisconnectPeer a \<Longrightarrow> heap_ok (emit x w) = heap_ok w"
  by (auto simp add: heap_ok_def emit_def)

lemma heap_ok_ws_close: "heap_ok w \<Longrightarrow> heap_ok (snd (ws_close rt c w))"
  by (simp add: ws_close_def Let_def heap_ok_onClose heap_ok_sock heap_ok_emit)

lemma heap_ok_resolve: "heap_ok w \<Longrightarrow> heap_ok (snd (resolve c w))"
  unfolding heap_ok_def resolve_def createPeer_def Let_def
  by (auto split: option.splits simp: nth_append less_Suc_eq)

lemma heap_ok_onMessage: "heap_ok w \<Longrightarrow> heap_ok (snd (onMessage rt c m r w))"
  unfolding onMessage_def Let_def
  by (auto split: option.splits prod.splits simp: heap_ok_ws_close heap_ok_emit
      dest: heap_ok_resolve [where c = c])

lemma heap_ok_sendMessage: "heap_ok w \<Longrightarrow> heap_ok (snd (sendMessage rt c v s w))"
  using sendMessage_state [of rt c v s w] by (auto simp: heap_ok_emit)

lemma heap_ok_assign:
  "heap_ok w \<Longrightarrow> a < length (heap w) \<Longrightarrow>
   heap_ok (w\<lparr>heap := (heap w)[a := (heap w ! a)\<lparr>peer_id := i\<rparr>]\<rparr>)"
  by (auto simp: heap_ok_def nth_list_update)

lemma heap_ok_deliver: "heap_ok w \<Longrightarrow> heap_ok (snd (deliver rt e w))"
  by (cases e)
     (simp_all add: heap_ok_onMessage heap_ok_onClose heap_ok_sock heap_ok_sendMessage
        heap_ok_assign onOpen_def, simp add: heap_ok_def)

lemma heap_ok_step: "heap_ok w \<Longrightarrow> heap_ok (step rt e w)"
  using heap_ok_deliver [of w rt e]
  by (auto simp: step_def heap_ok_uncaught split: prod.splits option.splits)

lemma heap_ok_run: "heap_ok w \<Longrightarrow> heap_ok (run rt evs w)"
  by (induction evs arbitrary: w) (auto simp: heap_ok_step)

lemma released_onClose: "released w a n \<Longrightarrow> released (onClose c w) a n"
  by (auto simp: released_def onClose_def emit_def Let_def split: option.splits)

lemma released_sock: "released (w\<lparr>sock := s\<rparr>) a n = released w a n"
  by (simp add: released_def)

lemma released_uncaught: "released (w\<lparr>uncaught := s\<rparr>) a n = released w a n"
  by (simp add: released_def)

lemma released_emit: "\<forall>a. x \<noteq> DisconnectPeer a \<Longrightarrow> released (emit x w) a n = released w a n"
  by (auto simp add: released_def emit_def)

lemma released_ws_close: "released w a n \<Longrightarrow> released (snd (ws_close rt c w)) a n"
  by (simp add: ws_close_def Let_def released_onClose released_sock released_emit)

lemma released_resolve: "released w a n \<Longrightarrow> released (snd (resolve c w)) a n"
  unfolding released_def resolve_def createPeer_def Let_def
  by (auto split: option.splits simp: nth_append less_Suc_eq)

lemma released_onMessage: "released w a n \<Longrightarrow> released (snd (onMessage rt c m r w)) a n"
  unfolding onMessage_def Let_def
  by (auto split: option.splits prod.splits simp: released_ws_close released_emit
      dest: released_resolve [where c = c])

lemma released_sendMessage: "released w a n \<Longrightarrow> released (snd (sendMessage rt c v s w)) a n"
  using sendMessage_state [of rt c v s w] by (auto simp: released_emit)

lemma released_deliver: "released w a n \<Longrightarrow> released (snd (deliver rt e w)) a n"
  by (cases e)
     (simp_all add: released_onMessage released_onClose released_sock released_sendMessage
        onOpen_def, simp_all add: released_def)

lemma released_step: "released w a n \<Longrightarrow> released (step rt e w) a n"
  using released_deliver [of w a n rt e]
  by (auto simp: step_def released_uncaught split: prod.splits option.splits)

lemma released_run: "released w a n \<Longrightarrow> released (run rt evs w) a n"
  by (induction evs arbitrary: w) (auto simp: released_step)

lemma closing_onClose:
  "heap_ok w \<Longrightarrow> ws_peer w c = Some a \<Longrightarrow> released (onClose c w) a 1"
  unfolding heap_ok_def released_def onClose_def emit_def Let_def
  by (auto split: option.splits) metis

lemma closing_ws_close:
  assumes "heap_ok w" "ws_peer w c = Some a" "sock w c = SOpen"
  shows "released (snd (ws_close rt c w)) a 1"
proof -
  let ?w2 = "(emit (WsClose c) w)\<lparr>sock := (sock (emit (WsClose c) w))(c := SClosed)\<rparr>"
  have "heap_ok ?w2"
    using assms by (simp add: heap_ok_sock heap_ok_emit)
  moreover have "ws_peer ?w2 c = Some a"
    using assms by (simp add: emit_def)
  ultimately have "released (onClose c ?w2) a 1"
    by (rule closing_onClose)
  then show ?thesis
    using assms by (simp add: ws_close_def Let_def)
qed

lemma closing_step:
  assumes "heap_ok w" "ws_peer w c = Some a" "sock w c = SOpen" "sock (step rt e w) c = SClosed"
  shows "released (step rt e w) a 1"
proof (cases e)
  case (Open c')
  with assms show ?thesis by (auto simp: step_def onOpen_def split: if_splits)
next
  case (Message c' m r)
  have eq: "c' = c"
    using assms Message sock_onMessage [of rt c' m r w]
    by (auto simp: step_def split: prod.splits option.splits if_splits)
  note closing = closing_ws_close [where rt = rt and c = c and a = a]
  show ?thesis
  proof (cases "JSON_parse rt (decoder_end rt m)")
    case None
    with assms Message eq closing [of w] show ?thesis
      by (auto simp: step_def onMessage_def released_uncaught split: prod.splits option.splits)
  next
    case (Some j)
    have res: "resolve c w = (a, w)"
      using assms by (simp add: resolve_def)
    show ?thesis
    proof (cases r)
      case None
      with assms Message eq Some res show ?thesis
        by (auto simp: step_def onMessage_def Let_def emit_def split: prod.splits option.splits)
    next
      case (Some x)
      show ?thesis
      proof (cases "instanceof_TrackerError x")
        case True
        let ?w3 = "emit (ProcessMessage j a)
                     (if debugMessagesEnabled rt then emit (DebugIn (peer_label (id_at w a)) j) w else w)"
        have "heap_ok ?w3" "ws_peer ?w3 c = Some a" "sock ?w3 c = SOpen"
          using assms by (auto simp: heap_ok_emit) (auto simp: emit_def)
        from closing [OF this] show ?thesis
          using Message eq \<open>JSON_parse rt (decoder_end rt m) = Some j\<close> res Some True
          by (auto simp: step_def onMessage_def Let_def released_uncaught
              split: prod.splits option.splits)
      next
        case False
        with assms Message eq \<open>JSON_parse rt (decoder_end rt m) = Some j\<close> res Some show ?thesis
          by (auto simp: step_def onMessage_def Let_def emit_def split: prod.splits option.splits)
      qed
    qed
  qed
next
  case (Drain c')
  with assms show ?thesis by (auto simp: step_def)
next
  case (Close c')
  with assms closing_onClose [of "w\<lparr>sock := (sock w)(c := SClosed)\<rparr>" c a] show ?thesis
    by (auto simp: step_def heap_ok_sock sock_onClose split: if_splits)
next
  case (Send a' v s)
  with assms sock_sendMessage [of rt "captured_ws (heap w ! a')" v s w] show ?thesis
    by (auto simp: step_def split: prod.splits option.splits if_splits)
next
  case (AssignId a' i)
  with assms show ?thesis by (auto simp: step_def split: if_splits)
qed

subsection \<open>The disconnect notification\<close>

text \<open>
  C4. Take any sequence of events whatever, after which a peer \<open>a\<close> is attached to the
  open connection \<open>c\<close>, and an event that closes \<open>c\<close> (a \<open>close\<close> signal, or a message
  that makes the handler call \<open>ws.close()\<close>). Then, however the events go on, repeated
  \<open>close\<close> signals for \<open>c\<close> included, \<open>disconnectPeer\<close> has been called with \<open>a\<close> exactly
  once.
\<close>

theorem disconnect_exactly_once:
  assumes "ws_peer (run rt evs init) c = Some a" and "sock (run rt evs init) c = SOpen"
    and "sock (run rt (evs @ [e]) init) c = SClosed"
  shows "count_list (calls (run rt (evs @ e # evs') init)) (DisconnectPeer a) = 1"
proof -
  have "heap_ok (run rt evs (init :: 'a world))"
    by (simp add: heap_ok_run heap_ok_init)
  then have "released (step rt e (run rt evs init)) a 1"
    using assms closing_step [of "run rt evs init" c a rt e] by (simp add: run_append)
  then have "released (run rt evs' (step rt e (run rt evs init))) a 1"
    by (rule released_run)
  then show ?thesis
    by (simp add: run_append released_def)
qed

theorem disconnect_exactly_once_witness:
  "ws_peer (run (node False None) [Open 0, Message 0 [0x7B, 0x7D] None] (init :: json world)) 0 = Some 0
   \<and> sock (run (node False None) [Open 0, Message 0 [0x7B, 0x7D] None] (init :: json world)) 0 = SOpen
   \<and> sock (run (node False None) ([Open 0, Message 0 [0x7B, 0x7D] None] @ [Close 0]) (init :: json world)) 0
       = SClosed
   \<and> count_list (calls (run (node False None)
          ([Open 0, Message 0 [0x7B, 0x7D] None] @ Close 0 # [Close 0]) (init :: json world)))
        (DisconnectPeer 0) = 1"
proof -
  have w: "run (node False None) [Open 0, Message 0 [0x7B, 0x7D] None] (init :: json world)
           = \<lparr> webSocketsCount = 1, ws_peer = (\<lambda>_. None)(0 \<mapsto> 0),
               heap = [\<lparr>peer_id = None, captured_ws = 0\<rparr>],
               sock = (\<lambda>_. Unopened)(0 := SOpen),
               calls = [ProcessMessage (JObject []) 0], uncaught = [] \<rparr>"
    using empty_object_parsed [of False None] by (simp add: run_eval) (simp add: node_def)
  have h1: "ws_peer (run (node False None) [Open 0, Message 0 [0x7B, 0x7D] None] (init :: json world)) 0
            = Some 0"
    unfolding w by simp
  have h2: "sock (run (node False None) [Open 0, Message 0 [0x7B, 0x7D] None] (init :: json world)) 0
            = SOpen"
    unfolding w by simp
  have h3: "sock (run (node False None) ([Open 0, Message 0 [0x7B, 0x7D] None] @ [Close 0])
              (init :: json world)) 0 = SClosed"
    unfolding run_append w by (simp add: step_def sock_onClose)
  from disconnect_exactly_once [OF h1 h2 h3, of "[Close 0]"] h1 h2 h3 show ?thesis
    by simp
qed

text \<open>
  C7, evaluated with diagnostics on. A connection is opened, receives the frame \<open>{}\<close>
  and is closed; the core then calls \<open>sendMessage\<close> on the peer it was given. The call
  raises, whatever \<open>JSON.stringify\<close> yields and whatever the transport does with a send
  on a closed socket: when neither throws, reading \<open>ws.peer.id\<close> does, since \<open>onClose\<close>
  deleted \<open>ws.peer\<close>.
\<close>

theorem send_after_close_raises:
  "fst (deliver (node True ca) (Send 0 v s)
         (run (node True ca) [Open 0, Message 0 [0x7B, 0x7D] None, Close 0] init))
   = (case s of
        Inl e \<Rightarrow> Some e
      | Inr text \<Rightarrow>
          (case ca of
             Some e \<Rightarrow> Some e
           | None \<Rightarrow> Some (TypeError ''Cannot read property id of undefined'')))"
proof -
  have "run (node True ca) [Open 0, Message 0 [0x7B, 0x7D] None, Close 0] (init :: 'a world)
           = \<lparr> webSocketsCount = 0, ws_peer = (\<lambda>_. None),
               heap = [\<lparr>peer_id = None, captured_ws = 0\<rparr>],
               sock = (\<lambda>_. Unopened)(0 := SClosed),
               calls = [DebugIn ''unknown peer'' (JObject []), ProcessMessage (JObject []) 0,
                        DisconnectPeer 0], uncaught = [] \<rparr>"
    using empty_object_parsed [of True ca]
    by (simp add: run_eval id_at_def peer_label_def) (simp add: node_def fun_eq_iff)
  then show ?thesis
    by (simp add: sendMessage_def ws_send_def node_def split: sum.splits option.splits)
qed

text \<open>
  With diagnostics off, and a transport that ignores a send on a closed socket, the same
  call returns.
\<close>

lemma send_after_close_quiet:
  "fst (deliver (node False None) (Send 0 v (Inr text))
         (run (node False None) [Open 0, Message 0 [0x7B, 0x7D] None, Close 0] init)) = None"
proof -
  have "run (node False None) [Open 0, Message 0 [0x7B, 0x7D] None, Close 0] (init :: 'a world)
           = \<lparr> webSocketsCount = 0, ws_peer = (\<lambda>_. None),
               heap = [\<lparr>peer_id = None, captured_ws = 0\<rparr>],
               sock = (\<lambda>_. Unopened)(0 := SClosed),
               calls = [ProcessMessage (JObject []) 0, DisconnectPeer 0], uncaught = [] \<rparr>"
    using empty_object_parsed [of False None]
    by (simp add: run_eval id_at_def peer_label_def) (simp add: node_def fun_eq_iff)
  then show ?thesis
    by (simp add: sendMessage_def ws_send_def node_def split: sum.splits option.splits)
qed

subsection \<open>One peer per connection\<close>

lemma peers_of_heap: "heap w1 = heap w \<Longrightarrow> peers_of w1 c = peers_of w c"
  by (simp add: peers_of_def)

lemma in_peers_of: "a \<in> set (peers_of w c) \<longleftrightarrow> a < length (heap w) \<and> captured_ws (heap w ! a) = c"
  by (auto simp: peers_of_def)

lemma peers_of_createPeer:
  "peers_of (snd (createPeer c w)) c' = peers_of w c' @ (if c' = c then [length (heap w)] else [])"
proof -
  have "filter (\<lambda>a. captured_ws ((heap w @ [\<lparr>peer_id = None, captured_ws = c\<rparr>]) ! a) = c')
          [0..<length (heap w)]
        = filter (\<lambda>a. captured_ws (heap w ! a) = c') [0..<length (heap w)]"
    by (rule filter_cong) (auto simp: nth_append)
  then show ?thesis
    by (simp add: peers_of_def createPeer_def)
qed

lemma captured_ws_assign:
  "captured_ws (xs[a := (xs ! a)\<lparr>peer_id := i\<rparr>] ! x) = captured_ws (xs ! x)"
  by (cases "x = a"; cases "a < length xs"; simp add: list_update_beyond)

lemma peers_of_assign:
  "peers_of (w\<lparr>heap := (heap w)[a := (heap w ! a)\<lparr>peer_id := i\<rparr>]\<rparr>) c = peers_of w c"
proof -
  have "filter (\<lambda>b. captured_ws ((heap w)[a := (heap w ! a)\<lparr>peer_id := i\<rparr>] ! b) = c)
          [0..<length (heap w)]
        = filter (\<lambda>b. captured_ws (heap w ! b) = c) [0..<length (heap w)]"
    by (rule filter_cong) (simp_all add: captured_ws_assign)
  then show ?thesis
    by (simp add: peers_of_def)
qed

lemma tidy1_cong:
  assumes "ws_peer w1 c = ws_peer w c" "sock w1 c = sock w c" "peers_of w1 c = peers_of w c"
    "D1 c = D c"
    "\<And>a. a \<in> set (peers_of w c) \<Longrightarrow>
       DisconnectPeer a \<in> set (calls w1) \<longleftrightarrow> DisconnectPeer a \<in> set (calls w)"
  shows "tidy1 D1 w1 c = tidy1 D w c"
  unfolding tidy1_def using assms by (simp cong: conj_cong imp_cong)

lemma tidy_init: "tidy (\<lambda>_. False) init"
  by (simp add: tidy_def tidy1_def init_def peers_of_def)

lemma tidy_emit: "\<forall>a. x \<noteq> DisconnectPeer a \<Longrightarrow> tidy D (emit x w) = tidy D w"
  unfolding tidy_def
  by (rule all_cong1, rule tidy1_cong) (auto simp: emit_def peers_of_def)

lemma tidy_uncaught: "tidy D (w\<lparr>uncaught := u\<rparr>) = tidy D w"
  unfolding tidy_def
  by (rule all_cong1, rule tidy1_cong) (auto simp: peers_of_def)

lemma tidy_assign:
  "tidy D (w\<lparr>heap := (heap w)[a := (heap w ! a)\<lparr>peer_id := i\<rparr>]\<rparr>) = tidy D w"
  unfolding tidy_def
  by (rule all_cong1, rule tidy1_cong) (auto simp: peers_of_assign)

lemma tidy_open:
  assumes "tidy D w" "sock w c = Unopened"
  shows "tidy D (onOpen c (w\<lparr>sock := (sock w)(c := SOpen)\<rparr>))"
  unfolding tidy_def
proof
  fix c'
  let ?w1 = "onOpen c (w\<lparr>sock := (sock w)(c := SOpen)\<rparr>)"
  have t: "tidy1 D w c'" using assms by (simp add: tidy_def)
  show "tidy1 D ?w1 c'"
  proof (cases "c' = c")
    case True
    with t assms show ?thesis by (auto simp: tidy1_def onOpen_def peers_of_def)
  next
    case False
    have "tidy1 D ?w1 c' = tidy1 D w c'"
      by (rule tidy1_cong) (use False in \<open>auto simp: onOpen_def peers_of_def\<close>)
    with t show ?thesis by simp
  qed
qed

lemma tidy_transport_close:
  assumes "tidy D w" "sock w c = SOpen"
  shows "tidy D (onClose c (w\<lparr>sock := (sock w)(c := SClosed)\<rparr>))"
  unfolding tidy_def
proof
  fix c'
  let ?w1 = "onClose c (w\<lparr>sock := (sock w)(c := SClosed)\<rparr>)"
  have t: "tidy1 D w c'" and tc: "tidy1 D w c" using assms by (simp_all add: tidy_def)
  have p: "peers_of ?w1 c' = peers_of w c'"
    by (rule peers_of_heap) (simp add: heap_onClose)
  show "tidy1 D ?w1 c'"
  proof (cases "c' = c")
    case True
    with t assms p show ?thesis
      by (auto simp: tidy1_def ws_peer_onClose sock_onClose calls_onClose split: option.splits)
  next
    case False
    have "tidy1 D ?w1 c' = tidy1 D w c'"
    proof (rule tidy1_cong)
      fix a assume a: "a \<in> set (peers_of w c')"
      have "ws_peer w c \<noteq> Some a"
      proof
        assume "ws_peer w c = Some a"
        with tc have "peers_of w c = [a]" by (simp add: tidy1_def)
        then have "a \<in> set (peers_of w c)" by simp
        with a False show False by (simp add: in_peers_of)
      qed
      then show "DisconnectPeer a \<in> set (calls ?w1) \<longleftrightarrow> DisconnectPeer a \<in> set (calls w)"
        by (auto simp: calls_onClose split: option.splits)
    qed (use False p in \<open>auto simp: ws_peer_onClose sock_onClose\<close>)
    with t show ?thesis by simp
  qed
qed

lemma tidy_ws_close:
  assumes "tidy D w" "sock w c = SOpen"
  shows "tidy D (snd (ws_close rt c w))"
proof -
  have "tidy D (emit (WsClose c) w)" "sock (emit (WsClose c) w) c = SOpen"
    using assms by (simp_all add: tidy_emit) (simp add: emit_def)
  then have "tidy D (onClose c ((emit (WsClose c) w)\<lparr>sock := (sock (emit (WsClose c) w))(c := SClosed)\<rparr>))"
    by (rule tidy_transport_close)
  then show ?thesis
    using assms by (simp add: ws_close_def Let_def)
qed

lemma tidy_resolve:
  assumes "tidy D w" "heap_ok w" "sock w c = SOpen"
  shows "tidy (D(c := True)) (snd (resolve c w))"
proof (cases "ws_peer w c")
  case (Some a)
  have "D(c := True) = D"
    using assms Some by (auto simp: tidy_def tidy1_def fun_eq_iff)
  then show ?thesis
    using assms Some by (simp add: resolve_def)
next
  case None
  let ?w1 = "snd (resolve c w)"
  have fresh: "DisconnectPeer (length (heap w)) \<notin> set (calls w)"
    using assms(2) by (auto simp: heap_ok_def)
  have wp: "ws_peer ?w1 = (ws_peer w)(c \<mapsto> length (heap w))" and so: "sock ?w1 = sock w"
    and ca: "calls ?w1 = calls w"
    and pe: "\<And>c'. peers_of ?w1 c' = peers_of w c' @ (if c' = c then [length (heap w)] else [])"
    using None peers_of_createPeer [of c w]
    by (simp_all add: resolve_def createPeer_def peers_of_def)
  show ?thesis
    unfolding tidy_def
  proof
    fix c'
    have t: "tidy1 D w c'" using assms by (simp add: tidy_def)
    show "tidy1 (D(c := True)) ?w1 c'"
    proof (cases "c' = c")
      case True
      with t assms None fresh show ?thesis
        by (auto simp: tidy1_def wp so ca pe)
    next
      case False
      have "tidy1 (D(c := True)) ?w1 c' = tidy1 D w c'"
        by (rule tidy1_cong) (use False in \<open>auto simp: wp so ca pe\<close>)
      with t show ?thesis by simp
    qed
  qed
qed

lemma tidy_onMessage:
  assumes "tidy D w" "heap_ok w" "sock w c = SOpen"
  shows "tidy (\<lambda>c'. D c' \<or> decodes rt c' (Message c m r)) (snd (onMessage rt c m r w))"
proof (cases "JSON_parse rt (decoder_end rt m)")
  case None
  then have "(\<lambda>c'. D c' \<or> decodes rt c' (Message c m r)) = D"
    by (simp add: fun_eq_iff)
  then show ?thesis
    using assms None by (simp add: onMessage_def tidy_ws_close)
next
  case (Some j)
  obtain p w1 where res: "resolve c w = (p, w1)"
    by (cases "resolve c w")
  have D: "(\<lambda>c'. D c' \<or> decodes rt c' (Message c m r)) = D(c := True)"
    using Some by (auto simp: fun_eq_iff)
  let ?w2 = "if debugMessagesEnabled rt then emit (DebugIn (peer_label (id_at w1 p)) j) w1 else w1"
  let ?w3 = "emit (ProcessMessage j p) ?w2"
  have "tidy (D(c := True)) w1" "sock w1 c = SOpen"
    using tidy_resolve [OF assms] sock_resolve [of c w] assms(3) res by simp_all
  then have t3: "tidy (D(c := True)) ?w3" and s3: "sock ?w3 c = SOpen"
    by (simp_all add: tidy_emit) (simp_all add: emit_def)
  have "snd (onMessage rt c m r w) = ?w3 \<or> snd (onMessage rt c m r w) = snd (ws_close rt c ?w3)"
    using Some res by (simp add: onMessage_def Let_def split: option.splits)
  then show ?thesis
    using t3 s3 tidy_ws_close [OF t3 s3, of rt] unfolding D by auto
qed

lemma tidy_sendMessage: "tidy D w \<Longrightarrow> tidy D (snd (sendMessage rt c v s w))"
  using sendMessage_state [of rt c v s w] by (auto simp: tidy_emit)

lemma tidy_deliver:
  assumes "tidy D w" "heap_ok w" "allowed w e"
  shows "tidy (\<lambda>c. D c \<or> decodes rt c e) (snd (deliver rt e w))"
proof (cases e)
  case (Message c m r)
  with assms tidy_onMessage [of D w c rt m r] show ?thesis by simp
next
  case (Open c)
  with assms tidy_open [of D w c] show ?thesis by simp
next
  case (Close c)
  with assms tidy_transport_close [of D w c] show ?thesis by simp
next
  case (Send a v s)
  with assms tidy_sendMessage [of D w rt _ v s] show ?thesis by simp
next
  case (AssignId a i)
  with assms show ?thesis by (simp add: tidy_assign)
qed (use assms in simp)

lemma tidy_step:
  assumes "tidy D w" "heap_ok w" "allowed w e"
  shows "tidy (\<lambda>c. D c \<or> decodes rt c e) (step rt e w)"
  using tidy_deliver [OF assms, of rt]
  by (auto simp: step_def tidy_uncaught split: prod.splits option.splits)

lemma tidy_run:
  assumes "tidy D w" "heap_ok w" "lifecycle rt w evs"
  shows "tidy (\<lambda>c. D c \<or> decoded rt c evs) (run rt evs w)"
  using assms
proof (induction evs arbitrary: w D)
  case Nil
  then show ?case by (simp add: decoded_def)
next
  case (Cons e evs)
  have "tidy (\<lambda>c. (D c \<or> decodes rt c e) \<or> decoded rt c evs) (run rt evs (step rt e w))"
    using Cons.prems by (intro Cons.IH tidy_step heap_ok_step) simp_all
  then show ?case
    by (simp add: decoded_def disj_assoc)
qed

lemma reachable_tidy:
  assumes "lifecycle rt init evs"
  shows "tidy1 (\<lambda>c. decoded rt c evs) (run rt evs init) c"
  using tidy_run [OF tidy_init heap_ok_init assms] by (simp add: tidy_def)

lemma heap_extends_refl: "heap w1 = heap w \<Longrightarrow> heap_extends w w1"
  by (simp add: heap_extends_def)

lemma heap_extends_trans: "heap_extends w w1 \<Longrightarrow> heap_extends w1 w2 \<Longrightarrow> heap_extends w w2"
  by (auto simp: heap_extends_def)

lemma heap_extends_resolve: "heap_extends w (snd (resolve c w))"
  by (auto simp: heap_extends_def resolve_def createPeer_def nth_append split: option.splits)

lemma heap_extends_onMessage: "heap_extends w (snd (onMessage rt c m r w))"
proof (cases "JSON_parse rt (decoder_end rt m)")
  case None
  then show ?thesis by (simp add: onMessage_def heap_ws_close heap_extends_refl)
next
  case (Some j)
  obtain p w1 where res: "resolve c w = (p, w1)"
    by (cases "resolve c w")
  have "heap (snd (onMessage rt c m r w)) = heap w1"
    using Some res
    by (simp add: onMessage_def Let_def heap_ws_close emit_def split: option.splits)
  moreover have "heap_extends w w1"
    using heap_extends_resolve [of w c] res by simp
  ultimately show ?thesis
    by (simp add: heap_extends_def)
qed

lemma heap_extends_step: "heap_extends w (step rt e w)"
proof -
  have "heap_extends w (snd (deliver rt e w))"
    by (cases e)
       (simp_all add: heap_extends_onMessage heap_extends_refl heap_onClose heap_sendMessage
          onOpen_def, simp add: heap_extends_def captured_ws_assign)
  then show ?thesis
    by (auto simp: step_def heap_extends_def split: prod.splits option.splits)
qed

lemma heap_extends_run: "heap_extends w (run rt evs w)"
proof (induction evs arbitrary: w)
  case Nil
  show ?case by (simp add: heap_extends_refl)
next
  case (Cons e evs)
  show ?case
    using heap_extends_trans [OF heap_extends_step [of w rt e] Cons.IH [of "step rt e w"]]
    by simp
qed

lemma peers_of_mono:
  "heap_extends w w1 \<Longrightarrow> a \<in> set (peers_of w c) \<Longrightarrow> a \<in> set (peers_of w1 c)"
  by (auto simp: heap_extends_def in_peers_of)

lemma tracker_error_calls:
  assumes "sock w0 ws = SOpen" "JSON_parse rt (decoder_end rt m) = Some j" "instanceof_TrackerError e"
  shows "new_calls w0 (snd (onMessage rt ws m (Some e) w0)) =
       (if debugMessagesEnabled rt
        then [DebugIn (peer_label (id_at (snd (resolve ws w0)) (fst (resolve ws w0)))) j] else [])
       @ [ProcessMessage j (fst (resolve ws w0)), WsClose ws, DisconnectPeer (fst (resolve ws w0))]"
  using assms by (cases "ws_peer w0 ws") (simp_all add: handler_defs new_calls_def)

text \<open>
  C10. Along a delivery that keeps the transport's contract: for a connection that is
  closed, \<open>disconnectPeer\<close> has been called with a peer of that connection exactly when
  one of its frames decoded; for a connection that is not closed it has not been called.
  And when \<open>processMessage\<close> raises a \<open>TrackerError\<close>, the calls of the handler are, in
  order, \<open>processMessage\<close> with the resolved peer, \<open>ws.close()\<close>, and \<open>disconnectPeer\<close>
  with that same peer: the peer was attached before \<open>processMessage\<close> was called.
\<close>

theorem disconnect_iff_decoded:
  assumes "lifecycle rt init evs"
  shows "(sock (run rt evs init) c = SClosed \<longrightarrow>
            (disconnect_notified (run rt evs init) c \<longleftrightarrow> decoded rt c evs))
       \<and> (sock (run rt evs init) c \<noteq> SClosed \<longrightarrow> \<not> disconnect_notified (run rt evs init) c)
       \<and> (sock w0 ws = SOpen \<and> JSON_parse rt (decoder_end rt m) = Some j
            \<and> instanceof_TrackerError e \<longrightarrow>
            new_calls w0 (snd (onMessage rt ws m (Some e) w0)) =
              (if debugMessagesEnabled rt
               then [DebugIn (peer_label (id_at (snd (resolve ws w0)) (fst (resolve ws w0)))) j]
               else [])
              @ [ProcessMessage j (fst (resolve ws w0)), WsClose ws,
                 DisconnectPeer (fst (resolve ws w0))])"
proof (intro conjI)
  show "sock (run rt evs init) c = SClosed \<longrightarrow>
          (disconnect_notified (run rt evs init) c \<longleftrightarrow> decoded rt c evs)"
    using reachable_tidy [OF assms, of c]
    by (cases "ws_peer (run rt evs init) c")
       (auto simp: tidy1_def disconnect_notified_def split: if_splits)
  show "sock (run rt evs init) c \<noteq> SClosed \<longrightarrow> \<not> disconnect_notified (run rt evs init) c"
    using reachable_tidy [OF assms, of c]
    by (cases "ws_peer (run rt evs init) c")
       (auto simp: tidy1_def disconnect_notified_def split: if_splits)
  show "sock w0 ws = SOpen \<and> JSON_parse rt (decoder_end rt m) = Some j
            \<and> instanceof_TrackerError e \<longrightarrow>
            new_calls w0 (snd (onMessage rt ws m (Some e) w0)) =
              (if debugMessagesEnabled rt
               then [DebugIn (peer_label (id_at (snd (resolve ws w0)) (fst (resolve ws w0)))) j]
               else [])
              @ [ProcessMessage j (fst (resolve ws w0)), WsClose ws,
                 DisconnectPeer (fst (resolve ws w0))]"
    using tracker_error_calls [of w0 ws rt m j e] by blast
qed

theorem disconnect_iff_decoded_witness:
  "lifecycle (node False None) (init :: json world)
     [Open 0, Message 0 [0x7B, 0x7D] (Some (TrackerError ''unknown action'')),
      Open 1, Message 1 [0x7B] None]
   \<and> sock (run (node False None)
        [Open 0, Message 0 [0x7B, 0x7D] (Some (TrackerError ''unknown action'')),
         Open 1, Message 1 [0x7B] None] (init :: json world)) 0 = SClosed
   \<and> decoded (node False None) 0
        [Open 0, Message 0 [0x7B, 0x7D] (Some (TrackerError ''unknown action'')),
         Open 1, Message 1 [0x7B] None :: json event]
   \<and> disconnect_notified (run (node False None)
        [Open 0, Message 0 [0x7B, 0x7D] (Some (TrackerError ''unknown action'')),
         Open 1, Message 1 [0x7B] None] (init :: json world)) 0
   \<and> sock (run (node False None)
        [Open 0, Message 0 [0x7B, 0x7D] (Some (TrackerError ''unknown action'')),
         Open 1, Message 1 [0x7B] None] (init :: json world)) 1 = SClosed
   \<and> \<not> decoded (node False None) 1
        [Open 0, Message 0 [0x7B, 0x7D] (Some (TrackerError ''unknown action'')),
         Open 1, Message 1 [0x7B] None :: json event]
   \<and> \<not> disconnect_notified (run (node False None)
        [Open 0, Message 0 [0x7B, 0x7D] (Some (TrackerError ''unknown action'')),
         Open 1, Message 1 [0x7B] None] (init :: json world)) 1
   \<and> new_calls (run (node False None) [Open 0] (init :: json world))
        (snd (onMessage (node False None) 0 [0x7B, 0x7D] (Some (TrackerError ''unknown action''))
               (run (node False None) [Open 0] (init :: json world))))
       = [ProcessMessage (JObject []) 0, WsClose 0, DisconnectPeer 0]"
proof -
  let ?rt = "node False None"
  let ?evs = "[Open 0, Message 0 [0x7B, 0x7D] (Some (TrackerError ''unknown action'')),
               Open 1, Message 1 [0x7B] None] :: json event list"
  note frames = empty_object_parsed [of False None] brace_rejected [of False None]
  have l: "lifecycle ?rt (init :: json world) ?evs"
    using frames by (simp add: run_eval)
  have s0: "sock (run ?rt ?evs (init :: json world)) 0 = SClosed"
    using frames by (simp add: run_eval)
  have s1: "sock (run ?rt ?evs (init :: json world)) 1 = SClosed"
    using frames by (simp add: run_eval)
  have d0: "decoded ?rt 0 ?evs"
    using frames by (simp add: decoded_def)
  have d1: "\<not> decoded ?rt 1 ?evs"
    using frames by (simp add: decoded_def)
  have o: "sock (run ?rt [Open 0] (init :: json world)) 0 = SOpen"
    by (rule opened_once)
  have t: "instanceof_TrackerError (TrackerError ''unknown action'')"
    by simp
  have r: "resolve 0 (run ?rt [Open 0] (init :: json world))
           = (0, (run ?rt [Open 0] (init :: json world))
                   \<lparr>heap := [\<lparr>peer_id = None, captured_ws = 0\<rparr>],
                     ws_peer := (\<lambda>_. None)(0 \<mapsto> 0)\<rparr>)"
    by (simp add: run_eval)
  have n: "new_calls (run ?rt [Open 0] (init :: json world))
        (snd (onMessage ?rt 0 [0x7B, 0x7D] (Some (TrackerError ''unknown action''))
               (run ?rt [Open 0] (init :: json world))))
       = [ProcessMessage (JObject []) 0, WsClose 0, DisconnectPeer 0]"
    using disconnect_iff_decoded [OF l, where ws = 0 and m = "[0x7B, 0x7D]" and j = "JObject []"
        and e = "TrackerError ''unknown action''"
        and ?w0.0 = "run ?rt [Open 0] (init :: json world)"]
      o t frames(1)
    unfolding r by (simp add: node_def)
  from disconnect_iff_decoded [OF l, where c = 0, THEN conjunct1]
    disconnect_iff_decoded [OF l, where c = 1, THEN conjunct1] l s0 s1 d0 d1 n
  show ?thesis
    by simp
qed

text \<open>
  C5. Along a delivery that keeps the transport's contract: at most one peer is ever
  built for a connection; after any prefix, a peer of the connection exists only if a
  frame on it decoded within that prefix; and once a peer is attached, resolving the
  peer of the connection, for as long as the connection is open, returns that same
  object and builds none.
\<close>

theorem one_peer_per_connection:
  assumes "lifecycle rt init (evs1 @ evs2)"
  shows "length (peers_of (run rt (evs1 @ evs2) init) c) \<le> 1
       \<and> (peers_of (run rt evs1 init) c \<noteq> [] \<longrightarrow> decoded rt c evs1)
       \<and> (ws_peer (run rt evs1 init) c = Some a \<and> sock (run rt (evs1 @ evs2) init) c = SOpen \<longrightarrow>
            resolve c (run rt (evs1 @ evs2) init) = (a, run rt (evs1 @ evs2) init))"
proof (intro conjI impI)
  let ?w = "run rt (evs1 @ evs2) init"
  have t: "tidy1 (\<lambda>c. decoded rt c (evs1 @ evs2)) ?w c"
    using assms by (rule reachable_tidy)
  have l1: "lifecycle rt init evs1"
    using assms by (simp add: lifecycle_append)
  have t1: "tidy1 (\<lambda>c. decoded rt c evs1) (run rt evs1 init) c"
    using l1 by (rule reachable_tidy)
  show "length (peers_of ?w c) \<le> 1"
    using t by (cases "ws_peer ?w c"; cases "sock ?w c") (auto simp: tidy1_def split: if_splits)
  show "decoded rt c evs1" if "peers_of (run rt evs1 init) c \<noteq> []"
    using t1 that
    by (cases "ws_peer (run rt evs1 init) c"; cases "sock (run rt evs1 init) c")
       (auto simp: tidy1_def split: if_splits)
  show "resolve c ?w = (a, ?w)"
    if h: "ws_peer (run rt evs1 init) c = Some a \<and> sock ?w c = SOpen"
  proof -
    have "a \<in> set (peers_of (run rt evs1 init) c)"
      using t1 h by (simp add: tidy1_def)
    then have m: "a \<in> set (peers_of ?w c)"
      using heap_extends_run [of "run rt evs1 init" rt evs2]
      by (simp add: run_append peers_of_mono)
    have "ws_peer ?w c = Some a"
    proof (cases "ws_peer ?w c")
      case None
      with t h m show ?thesis by (simp add: tidy1_def)
    next
      case (Some b)
      with t m show ?thesis by (simp add: tidy1_def)
    qed
    then show ?thesis by (simp add: resolve_def)
  qed
qed

theorem one_peer_per_connection_witness:
  "lifecycle (node False None) (init :: json world)
     ([Open 0, Message 0 [0x7B, 0x7D] None] @ [Message 0 [0x7B, 0x7D] None])
   \<and> peers_of (run (node False None) [Open 0, Message 0 [0x7B, 0x7D] None] (init :: json world)) 0 \<noteq> []
   \<and> decoded (node False None) 0 [Open 0, Message 0 [0x7B, 0x7D] None :: json event]
   \<and> ws_peer (run (node False None) [Open 0, Message 0 [0x7B, 0x7D] None] (init :: json world)) 0 = Some 0
   \<and> sock (run (node False None)
        ([Open 0, Message 0 [0x7B, 0x7D] None] @ [Message 0 [0x7B, 0x7D] None]) (init :: json world)) 0
       = SOpen
   \<and> fst (resolve 0 (run (node False None)
        ([Open 0, Message 0 [0x7B, 0x7D] None] @ [Message 0 [0x7B, 0x7D] None]) (init :: json world)))
       = 0
   \<and> length (peers_of (run (node False None)
        ([Open 0, Message 0 [0x7B, 0x7D] None] @ [Message 0 [0x7B, 0x7D] None]) (init :: json world)) 0)
       \<le> 1"
proof -
  let ?rt = "node False None"
  let ?evs1 = "[Open 0, Message 0 [0x7B, 0x7D] None] :: json event list"
  let ?evs2 = "[Message 0 [0x7B, 0x7D] None] :: json event list"
  note frames = empty_object_parsed [of False None]
  have l: "lifecycle ?rt (init :: json world) (?evs1 @ ?evs2)"
    using frames by (simp add: run_eval)
  have w1: "run ?rt ?evs1 (init :: json world)
           = \<lparr> webSocketsCount = 1, ws_peer = (\<lambda>_. None)(0 \<mapsto> 0),
               heap = [\<lparr>peer_id = None, captured_ws = 0\<rparr>],
               sock = (\<lambda>_. Unopened)(0 := SOpen),
               calls = [ProcessMessage (JObject []) 0], uncaught = [] \<rparr>"
    using frames by (simp add: run_eval) (simp add: node_def)
  have p: "peers_of (run ?rt ?evs1 (init :: json world)) 0 \<noteq> []"
    unfolding w1 by (simp add: peers_of_def)
  have a: "ws_peer (run ?rt ?evs1 (init :: json world)) 0 = Some 0"
    unfolding w1 by simp
  have s: "sock (run ?rt (?evs1 @ ?evs2) (init :: json world)) 0 = SOpen"
    unfolding run_append w1 using frames by (simp add: run_eval)
  from one_peer_per_connection [OF l, where c = 0 and a = 0] l p a s show ?thesis
    by simp
qed

subsection \<open>Sending after close, in general\<close>

text \<open>
  Along any delivery that keeps the transport's contract, once the connection of a peer
  is closed: with diagnostics on, \<open>sendMessage\<close> on that peer raises; with diagnostics
  off it raises what \<open>JSON.stringify\<close> raises, and otherwise what the transport does with
  a send on a closed socket.
\<close>

lemma closed_detached:
  assumes "lifecycle rt init evs" "sock (run rt evs init) c = SClosed"
  shows "ws_peer (run rt evs init) c = None"
  using reachable_tidy [OF assms(1), of c] assms(2) by (auto simp: tidy1_def)

lemma send_after_close_general:
  assumes "lifecycle rt init evs" and "a < length (heap (run rt evs init))"
    and "sock (run rt evs init) (captured_ws (heap (run rt evs init) ! a)) = SClosed"
  shows "(debugMessagesEnabled rt \<longrightarrow> fst (deliver rt (Send a v s) (run rt evs init)) \<noteq> None)
       \<and> (\<not> debugMessagesEnabled rt \<longrightarrow>
            fst (deliver rt (Send a v s) (run rt evs init))
            = (case s of Inl e \<Rightarrow> Some e | Inr text \<Rightarrow> closed_access rt))"
  using assms closed_detached [OF assms(1,3)]
  by (auto simp: sendMessage_def ws_send_def split: sum.splits option.splits)

end
